theory Spec2Isabelle
  imports Complex_Main "HOL-Library.Multiset" "HOL-Library.Char_ord" "HOL-Library.List_Lexorder"
begin

section \<open>Python values and errors\<close>

text \<open>
  Exceptions of the Python source are values of \<open>py_error\<close>; a function that can raise
  returns \<open>py_error + 'a\<close> with \<open>Inl\<close> for the exception.
\<close>

datatype py_error = IndexError | KeyError | ZeroDivisionError

text \<open>
  A float64 as far as comparison sees it: a finite value, an infinity or NaN. Finite
  values are reals (rounding is not modelled); \<open>flt\<close> is the float \<open><\<close>, on which
  every comparison with NaN is false.
\<close>

datatype fval = Fin real | PInf | NInf | NaN

fun fabs :: "fval \<Rightarrow> fval" where
  "fabs (Fin x) = Fin \<bar>x\<bar>"
| "fabs PInf = PInf"
| "fabs NInf = PInf"
| "fabs NaN = NaN"

fun flt :: "fval \<Rightarrow> fval \<Rightarrow> bool" where
  "flt (Fin x) (Fin y) = (x < y)"
| "flt (Fin x) PInf = True"
| "flt NInf (Fin y) = True"
| "flt NInf PInf = True"
| "flt _ _ = False"

definition np_index :: "'a list \<Rightarrow> int \<Rightarrow> py_error + 'a" where
  \<comment> \<open>\<open>a[i]\<close> on a one-dimensional array; \<open>a[-1]\<close> is the last entry\<close>
  "np_index xs i =
     (if 0 \<le> i \<and> i < int (length xs) then Inr (xs ! nat i)
      else if i < 0 \<and> - int (length xs) \<le> i then Inr (xs ! nat (int (length xs) + i))
      else Inl IndexError)"

section \<open>camera\_stats.py: analyze\_camera\_stats\_magnitude\<close>

text \<open>
  The keys of one duration's table are the four magnitudes and the string \<open>'failed'\<close>.
  A detailed entry pairs the video name with the parameter value or with \<open>'failed'\<close>.
\<close>

datatype bkey = Mag fval | FailedKey

datatype dval = Val fval | FailedMark

type_synonym camera = "string \<rightharpoonup> fval list"
type_synonym mag_counts = "bkey \<rightharpoonup> nat"
type_synonym mag_lists = "bkey \<rightharpoonup> (string \<times> dval) list"

definition magnitudes :: "fval list" where
  "magnitudes = [Fin 10, Fin 100, Fin 1000, PInf]"

definition new_counts :: mag_counts where
  \<comment> \<open>\<open>{mag: 0 for mag in magnitudes}\<close>\<close>
  "new_counts = map_of (map (\<lambda>mag. (Mag mag, 0)) magnitudes)"

definition new_lists :: mag_lists where
  \<comment> \<open>\<open>{mag: [] for mag in magnitudes}\<close>\<close>
  "new_lists = map_of (map (\<lambda>mag. (Mag mag, [])) magnitudes)"

record stats_state =
  magnitude_stats :: "string \<rightharpoonup> mag_counts"
  total_counts :: "string \<Rightarrow> nat"
  detailed_stats :: "string \<rightharpoonup> mag_lists"

definition dd_get :: "'v \<Rightarrow> (string \<rightharpoonup> 'v) \<Rightarrow> string \<Rightarrow> 'v" where
  \<comment> \<open>reading \<open>d[key]\<close> of a defaultdict: a missing key gets the default\<close>
  "dd_get dflt m k = (case m k of None \<Rightarrow> dflt | Some v \<Rightarrow> v)"

definition incr :: "mag_counts \<Rightarrow> bkey \<Rightarrow> py_error + mag_counts" where
  \<comment> \<open>\<open>counts[key] += 1\<close> on a plain dict\<close>
  "incr mc k = (case mc k of None \<Rightarrow> Inl KeyError | Some c \<Rightarrow> Inr (mc(k \<mapsto> c + 1)))"

definition append_to :: "mag_lists \<Rightarrow> bkey \<Rightarrow> string \<times> dval \<Rightarrow> py_error + mag_lists" where
  \<comment> \<open>\<open>lists[key].append(x)\<close> on a plain dict\<close>
  "append_to ml k x = (case ml k of None \<Rightarrow> Inl KeyError | Some l \<Rightarrow> Inr (ml(k \<mapsto> l @ [x])))"

fun init_failed :: "string list \<Rightarrow> stats_state \<Rightarrow> stats_state" where
  \<comment> \<open>lines 63-65: the first loop over the durations\<close>
  "init_failed [] st = st"
| "init_failed (duration # ds) st =
     init_failed ds
       (st\<lparr>magnitude_stats := (magnitude_stats st)
              (duration \<mapsto> (dd_get new_counts (magnitude_stats st) duration)(FailedKey \<mapsto> 0)),
           detailed_stats := (detailed_stats st)
              (duration \<mapsto> (dd_get new_lists (detailed_stats st) duration)(FailedKey \<mapsto> []))\<rparr>)"

fun mag_loop :: "fval list \<Rightarrow> int \<Rightarrow> fval list \<Rightarrow> py_error + (fval \<times> fval) option" where
  \<comment> \<open>lines 73-79: \<open>for mag in magnitudes\<close> with its \<open>break\<close>; the result is the magnitude
      that matched and the parameter value, or nothing when the loop ran to its end\<close>
  "mag_loop vec param_index [] = Inr None"
| "mag_loop vec param_index (mag # mags) =
     (case np_index vec param_index of
        Inl e \<Rightarrow> Inl e
      | Inr x \<Rightarrow>
          (let param_value = fabs x
           in if flt param_value mag then Inr (Some (mag, param_value))
              else mag_loop vec param_index mags))"

definition bump_total :: "string \<Rightarrow> stats_state \<Rightarrow> stats_state" where
  "bump_total duration st = st\<lparr>total_counts := (total_counts st)(duration := total_counts st duration + 1)\<rparr>"

definition record_in :: "string \<Rightarrow> bkey \<Rightarrow> string \<times> dval \<Rightarrow> stats_state \<Rightarrow> py_error + stats_state" where
  \<comment> \<open>\<open>magnitude_stats[duration][key] += 1; detailed_stats[duration][key].append(x)\<close>\<close>
  "record_in duration k x st =
     (case incr (dd_get new_counts (magnitude_stats st) duration) k of
        Inl e \<Rightarrow> Inl e
      | Inr mc \<Rightarrow>
          (case append_to (dd_get new_lists (detailed_stats st) duration) k x of
             Inl e \<Rightarrow> Inl e
           | Inr ml \<Rightarrow>
               Inr (st\<lparr>magnitude_stats := (magnitude_stats st)(duration \<mapsto> mc),
                       detailed_stats := (detailed_stats st)(duration \<mapsto> ml)\<rparr>)))"

definition visit :: "int \<Rightarrow> string \<Rightarrow> camera \<Rightarrow> string \<Rightarrow> stats_state \<Rightarrow> py_error + stats_state" where
  \<comment> \<open>lines 68-80: the body of the loop over the durations, for one video\<close>
  "visit param_index video_name camera duration st =
     (case camera duration of
        None \<Rightarrow>
          (case record_in duration FailedKey (video_name, FailedMark) st of
             Inl e \<Rightarrow> Inl e
           | Inr st' \<Rightarrow> Inr (bump_total duration st'))
      | Some vec \<Rightarrow>
          (case mag_loop vec param_index magnitudes of
             Inl e \<Rightarrow> Inl e
           | Inr None \<Rightarrow> Inr (bump_total duration st)
           | Inr (Some (mag, param_value)) \<Rightarrow>
               (case record_in duration (Mag mag) (video_name, Val param_value) st of
                  Inl e \<Rightarrow> Inl e
                | Inr st' \<Rightarrow> Inr (bump_total duration st'))))"

fun visit_durations :: "int \<Rightarrow> string \<Rightarrow> camera \<Rightarrow> string list \<Rightarrow> stats_state \<Rightarrow> py_error + stats_state" where
  "visit_durations param_index video_name camera [] st = Inr st"
| "visit_durations param_index video_name camera (duration # ds) st =
     (case visit param_index video_name camera duration st of
        Inl e \<Rightarrow> Inl e
      | Inr st' \<Rightarrow> visit_durations param_index video_name camera ds st')"

fun visit_videos :: "int \<Rightarrow> (string \<times> camera) list \<Rightarrow> string list \<Rightarrow> stats_state \<Rightarrow> py_error + stats_state" where
  \<comment> \<open>lines 66-80: \<open>for video_name, camera in camera_stats.items()\<close>\<close>
  "visit_videos param_index [] durations st = Inr st"
| "visit_videos param_index ((video_name, camera) # rest) durations st =
     (case visit_durations param_index video_name camera durations st of
        Inl e \<Rightarrow> Inl e
      | Inr st' \<Rightarrow> visit_videos param_index rest durations st')"

definition recall_of :: "stats_state \<Rightarrow> string \<rightharpoonup> (bkey \<rightharpoonup> real)" where
  \<comment> \<open>lines 83-87: one recall table for each duration whose total is positive\<close>
  "recall_of st duration =
     (case magnitude_stats st duration of
        None \<Rightarrow> None
      | Some mag_counts \<Rightarrow>
          if total_counts st duration > 0
          then Some (\<lambda>mag. map_option (\<lambda>count. real count / real (total_counts st duration)) (mag_counts mag))
          else None)"

definition empty_stats :: stats_state where
  "empty_stats = \<lparr>magnitude_stats = Map.empty, total_counts = (\<lambda>_. 0), detailed_stats = Map.empty\<rparr>"

definition analyze_camera_stats_magnitude ::
  "(string \<times> camera) list \<Rightarrow> string list \<Rightarrow> int
     \<Rightarrow> py_error + ((string \<rightharpoonup> (bkey \<rightharpoonup> real)) \<times> (string \<rightharpoonup> mag_lists))" where
  "analyze_camera_stats_magnitude camera_stats durations param_index =
     (case visit_videos param_index camera_stats durations (init_failed durations empty_stats) of
        Inl e \<Rightarrow> Inl e
      | Inr st \<Rightarrow> Inr (recall_of st, detailed_stats st))"

subsection \<open>What the analysis computes, read off its loops\<close>

definition all_keys :: "bkey list" where
  "all_keys = map Mag magnitudes @ [FailedKey]"

definition placed :: "int \<Rightarrow> camera \<Rightarrow> string \<Rightarrow> (bkey \<times> dval) option" where
  "placed param_index camera duration =
     (case camera duration of
        None \<Rightarrow> Some (FailedKey, FailedMark)
      | Some vec \<Rightarrow>
          (case mag_loop vec param_index magnitudes of
             Inr (Some (mag, param_value)) \<Rightarrow> Some (Mag mag, Val param_value)
           | _ \<Rightarrow> None))"

definition cnt :: "stats_state \<Rightarrow> string \<Rightarrow> bkey \<Rightarrow> nat" where
  "cnt st d k = (case magnitude_stats st d of None \<Rightarrow> 0 | Some mc \<Rightarrow> (case mc k of None \<Rightarrow> 0 | Some c \<Rightarrow> c))"

definition lst :: "stats_state \<Rightarrow> string \<Rightarrow> bkey \<Rightarrow> (string \<times> dval) list" where
  "lst st d k = (case detailed_stats st d of None \<Rightarrow> [] | Some ml \<Rightarrow> (case ml k of None \<Rightarrow> [] | Some l \<Rightarrow> l))"

definition wf_at :: "stats_state \<Rightarrow> string \<Rightarrow> bool" where
  "wf_at st d \<longleftrightarrow>
     (\<exists>mc ml. magnitude_stats st d = Some mc \<and> detailed_stats st d = Some ml \<and>
        dom mc = set all_keys \<and> dom ml = set all_keys)"

definition index_ok :: "int \<Rightarrow> camera \<Rightarrow> string \<Rightarrow> bool" where
  "index_ok i c d = (case c d of None \<Rightarrow> True | Some vec \<Rightarrow> (case np_index vec i of Inl _ \<Rightarrow> False | Inr _ \<Rightarrow> True))"

definition hits :: "int \<Rightarrow> string \<Rightarrow> camera \<Rightarrow> string \<Rightarrow> bkey \<Rightarrow> (string \<times> dval) list" where
  "hits i v c d k = (case placed i c d of None \<Rightarrow> [] | Some (k', x) \<Rightarrow> if k' = k then [(v, x)] else [])"

definition visit_post :: "stats_state \<Rightarrow> stats_state \<Rightarrow> string \<Rightarrow> (bkey \<Rightarrow> (string \<times> dval) list) \<Rightarrow> bool" where
  "visit_post st st' d h \<longleftrightarrow>
     (\<forall>d'. wf_at st d' \<longrightarrow> wf_at st' d') \<and>
     (\<forall>d'. total_counts st' d' = total_counts st d' + (if d' = d then 1 else 0)) \<and>
     (\<forall>d' k. cnt st' d' k = cnt st d' k + (if d' = d then length (h k) else 0)) \<and>
     (\<forall>d' k. lst st' d' k = lst st d' k @ (if d' = d then h k else []))"

definition all_hits :: "int \<Rightarrow> (string \<times> camera) list \<Rightarrow> string \<Rightarrow> bkey \<Rightarrow> (string \<times> dval) list" where
  "all_hits i cs d k = concat (map (\<lambda>(v, c). hits i v c d k) cs)"

definition fresh :: "stats_state \<Rightarrow> bool" where
  "fresh st \<longleftrightarrow> (\<forall>d. total_counts st d = 0) \<and> (\<forall>d k. cnt st d k = 0 \<and> lst st d k = []) \<and>
     (\<forall>d. wf_at st d \<or> (magnitude_stats st d = None \<and> detailed_stats st d = None))"

definition recall_at :: "(string \<times> camera) list \<Rightarrow> string list \<Rightarrow> int \<Rightarrow> string \<Rightarrow> bkey \<Rightarrow> real option" where
  "recall_at cs ds i d k =
     (case analyze_camera_stats_magnitude cs ds i of
        Inl _ \<Rightarrow> None
      | Inr (recall, det) \<Rightarrow> (case recall d of None \<Rightarrow> None | Some r \<Rightarrow> r k))"

definition scenario_stats :: "(string \<times> camera) list" where
  \<comment> \<open>an aggregate of two videos: A has the values 5 (30s) and 50 (60s), B the value 8 (60s only)\<close>
  "scenario_stats =
     [(''A'', [''30'' \<mapsto> [Fin 1, Fin 1, Fin 1, Fin 1, Fin 5], ''60'' \<mapsto> [Fin 1, Fin 1, Fin 1, Fin 1, Fin 50]]),
      (''B'', [''60'' \<mapsto> [Fin 1, Fin 1, Fin 1, Fin 1, Fin 8]])]"

section \<open>video\_cut.py: strings and arrays\<close>

definition digit_chars :: string where
  "digit_chars = ''0123456789''"

fun str_nat :: "nat \<Rightarrow> string" where
  "str_nat n = (if n < 10 then [digit_chars ! n] else str_nat (n div 10) @ [digit_chars ! (n mod 10)])"

declare str_nat.simps [simp del]

definition str_int :: "int \<Rightarrow> string" where
  \<comment> \<open>\<open>str(i)\<close> and \<open>f"{i}"\<close> of a Python int\<close>
  "str_int i = (if i < 0 then CHR ''-'' # str_nat (nat (- i)) else str_nat (nat i))"

definition basename :: "string \<Rightarrow> string" where
  \<comment> \<open>\<open>os.path.basename\<close>: what follows the last slash\<close>
  "basename p = rev (takeWhile (\<lambda>c. c \<noteq> CHR ''/'') (rev p))"

definition splitext_root :: "string \<Rightarrow> string" where
  \<comment> \<open>\<open>os.path.splitext(p)[0]\<close> of a name without a slash: the name up to its last dot,
      when a character other than a dot comes before that dot\<close>
  "splitext_root p =
     (let stem = rev (drop 1 (dropWhile (\<lambda>c. c \<noteq> CHR ''.'') (rev p)))
      in if CHR ''.'' \<in> set p \<and> \<not> list_all (\<lambda>c. c = CHR ''.'') stem then stem else p)"

definition video_basename_of :: "string \<Rightarrow> string" where
  \<comment> \<open>lines 140, 299 and 329\<close>
  "video_basename_of video_name = splitext_root (basename video_name)"

text \<open>
  A two-dimensional array is a list of rows. \<open>np.array\<close> of rows of different lengths
  raises, and so does \<open>np.concatenate\<close> of the two scalars that the mean and the
  standard deviation of no rows are. Floats are reals here: rounding is not modelled.
\<close>

definition column :: "real list list \<Rightarrow> nat \<Rightarrow> real list" where
  "column rows j = map (\<lambda>row. row ! j) rows"

definition mean :: "real list \<Rightarrow> real" where
  "mean xs = sum_list xs / real (length xs)"

definition std :: "real list \<Rightarrow> real" where
  \<comment> \<open>\<open>np.std\<close>: the square root of the mean squared deviation from the mean\<close>
  "std xs = sqrt (mean (map (\<lambda>x. (x - mean xs)\<^sup>2) xs))"

definition rectangular :: "real list list \<Rightarrow> bool" where
  "rectangular rows = list_all (\<lambda>row. length row = length (hd rows)) rows"

definition mean_std :: "real list list \<Rightarrow> string + real list" where
  \<comment> \<open>\<open>np.concatenate((np.mean(a, axis=0), np.std(a, axis=0)), axis=-1)\<close>; \<open>Inl\<close> is the
      message of the exception raised\<close>
  "mean_std rows =
     (if rows = [] then Inl ''zero-dimensional arrays cannot be concatenated''
      else if \<not> rectangular rows then Inl ''inhomogeneous shape''
      else Inr (map (\<lambda>j. mean (column rows j)) [0 ..< length (hd rows)] @
                map (\<lambda>j. std (column rows j)) [0 ..< length (hd rows)]))"

fun dict_set :: "'k \<Rightarrow> 'v \<Rightarrow> ('k \<times> 'v) list \<Rightarrow> ('k \<times> 'v) list" where
  \<comment> \<open>\<open>d[k] = v\<close> on a dict, which keeps the order in which its keys came\<close>
  "dict_set k v [] = [(k, v)]"
| "dict_set k v ((k', v') # rest) = (if k' = k then (k, v) # rest else (k', v') # dict_set k v rest)"

section \<open>video\_cut.py: time\_limit\<close>

text \<open>
  Of the exceptions only the class and the message matter to the handlers of the job:
  \<open>Error msg\<close> is an exception of any class under \<open>Exception\<close> other than
  \<open>TimeoutException\<close>, with \<open>str(e) = msg\<close>. \<open>KeyboardInterrupt\<close> is not under
  \<open>Exception\<close>. It is raised in the main thread by \<open>_thread.interrupt_main()\<close>, which
  the deadline's timer calls, and by an interrupt of the user; the exception is the same.
\<close>

datatype exn = KeyboardInterrupt | TimeoutException string | Error string

datatype interrupt_source = DeadlineTimer | UserInterrupt

datatype block_result = Completed | Interrupted interrupt_source | Raised string

definition raised_in_block :: "block_result \<Rightarrow> exn option" where
  "raised_in_block b =
     (case b of
        Completed \<Rightarrow> None
      | Interrupted src \<Rightarrow> Some KeyboardInterrupt
      | Raised msg \<Rightarrow> Some (Error msg))"

definition time_limit :: "exn option \<Rightarrow> exn option \<times> bool" where
  \<comment> \<open>lines 102-111. The argument is what the guarded block raised (nothing when it ran to
      its end); the result is what the \<open>with\<close> statement raises, and whether the timer is
      still armed when the statement is left\<close>
  "time_limit body =
     (let timer_armed = True;
          raised = (case body of
                      Some KeyboardInterrupt \<Rightarrow> Some (TimeoutException ''Task timed out'')
                    | other \<Rightarrow> other);
          timer_armed = False
      in (raised, timer_armed))"

section \<open>video\_cut.py: process\_single\_video\<close>

text \<open>
  What the job finds outside itself. A directory maps file names to contents;
  \<open>load_reconstruction\<close> is \<open>pycolmap.Reconstruction\<close> on the three model files of a
  directory (\<open>Inl\<close> is the message of the exception it raises). \<open>run_block\<close> is what
  happens inside the guarded block for a duration and its seed, \<open>sparse_dir\<close> the
  reconstruction directory when the block is over, \<open>models_dir\<close> the listing of its
  \<open>models\<close> subdirectory (nothing when \<open>os.listdir\<close> raises), \<open>py_hash\<close> the
  \<open>hash\<close> of the interpreter the job runs in.
\<close>

type_synonym directory = "string \<rightharpoonup> string"

datatype entry = Dir directory | NotDir

record reconstruction =
  cameras :: "real list list"
  num_reg_images :: nat

record job_env =
  py_hash :: "string \<Rightarrow> int"
  run_block :: "int \<Rightarrow> int \<Rightarrow> block_result"
  sparse_dir :: "int \<Rightarrow> directory"
  models_dir :: "int \<Rightarrow> (string \<times> entry) list option"
  load_reconstruction :: "directory \<Rightarrow> string + reconstruction"
  elapsed_time :: "int \<Rightarrow> int"
  savez_ok :: bool

definition model_files :: "string list" where
  "model_files = [''images.bin'', ''cameras.bin'', ''points3D.bin'']"

definition pycolmap_Reconstruction :: "job_env \<Rightarrow> directory \<Rightarrow> string + reconstruction" where
  "pycolmap_Reconstruction env dir = load_reconstruction env (dir |` set model_files)"

fun first_missing :: "directory \<Rightarrow> string list \<Rightarrow> string option" where
  \<comment> \<open>lines 158-160: the first of the files that does not exist\<close>
  "first_missing dir [] = None"
| "first_missing dir (filename # rest) =
     (if dir filename = None then Some filename else first_missing dir rest)"

definition summarise :: "job_env \<Rightarrow> directory \<Rightarrow> real list list \<times> (string + real list)" where
  \<comment> \<open>lines 162-169 and 192-199: the parameter vectors appended to
      \<open>camera_params_out_duration\<close>, and the summary or the message of the exception\<close>
  "summarise env dir =
     (case pycolmap_Reconstruction env dir of
        Inl msg \<Rightarrow> ([], Inl msg)
      | Inr reconstruction \<Rightarrow> (cameras reconstruction, mean_std (cameras reconstruction)))"

fun find_largest ::
  "job_env \<Rightarrow> (string \<times> entry) list \<Rightarrow> string option \<Rightarrow> nat \<Rightarrow> string + (string option \<times> nat)" where
  \<comment> \<open>lines 176-182\<close>
  "find_largest env [] largest_path largest_num_images = Inr (largest_path, largest_num_images)"
| "find_largest env ((path, e) # rest) largest_path largest_num_images =
     (case e of
        NotDir \<Rightarrow> find_largest env rest largest_path largest_num_images
      | Dir dir \<Rightarrow>
          (case pycolmap_Reconstruction env dir of
             Inl msg \<Rightarrow> Inl msg
           | Inr reconstruction \<Rightarrow>
               (let num_images = num_reg_images reconstruction
                in if num_images > largest_num_images
                   then find_largest env rest (Some path) num_images
                   else find_largest env rest largest_path largest_num_images)))"

fun promote :: "directory \<Rightarrow> directory \<Rightarrow> string list \<Rightarrow> string + directory" where
  \<comment> \<open>lines 186-190: each file of the reconstruction directory is unlinked when it exists
      and the checkpoint's file is moved in; moving a file that is not there raises\<close>
  "promote src dst [] = Inr dst"
| "promote src dst (filename # rest) =
     (case src filename of
        None \<Rightarrow> Inl ''No such file or directory''
      | Some content \<Rightarrow> promote (src(filename := None)) (dst(filename \<mapsto> content)) rest)"

definition recover :: "job_env \<Rightarrow> int \<Rightarrow> string list \<times> real list list \<times> (string + real list)" where
  \<comment> \<open>lines 173-199: the lines printed, the vectors appended, and the summary or the
      message of the exception that ended the recovery\<close>
  "recover env duration =
     (case models_dir env duration of
        None \<Rightarrow> ([], [], Inl ''No such file or directory'')
      | Some listing \<Rightarrow>
          (case find_largest env listing None 0 of
             Inl msg \<Rightarrow> ([], [], Inl msg)
           | Inr (None, largest_num_images) \<Rightarrow> ([], [], Inl [])
           | Inr (Some largest_path, largest_num_images) \<Rightarrow>
               (let line = ''Largest model is #'' @ largest_path @ ''with '' @
                           str_nat largest_num_images @ '' images.''
                in case map_of listing largest_path of
                     Some (Dir src) \<Rightarrow>
                       (case promote src (sparse_dir env duration) model_files of
                          Inl msg \<Rightarrow> ([line], [], Inl msg)
                        | Inr dir \<Rightarrow> (case summarise env dir of (vectors, r) \<Rightarrow> ([line], vectors, r)))
                   | _ \<Rightarrow> ([line], [], Inl ''No such file or directory''))))"

text \<open>
  What one pass of the loop over the durations does to the state of the job. \<open>kind\<close>
  names the branch of the \<open>try\<close> statement that ran to its end: the body, the handler of
  \<open>TimeoutException\<close>, or a handler that logs the failure.
\<close>

datatype path = Success | Recovered | Failed

record effect =
  kind :: path
  appended :: "real list list"
  entry :: "real list option"
  logged :: "string list"
  printed :: "string list"
  uncaught :: "exn option"

definition failure :: "string \<Rightarrow> int \<Rightarrow> string \<Rightarrow> real list list \<Rightarrow> effect" where
  \<comment> \<open>lines 207-211\<close>
  "failure video_name duration msg vectors =
     \<lparr>kind = Failed, appended = vectors, entry = None,
      logged = [video_name @ '' '' @ str_int duration @ ''s: '' @ msg],
      printed = [''Error processing '' @ video_name @ '' '' @ str_int duration @ ''s: '' @ msg],
      uncaught = None\<rparr>"

definition timeout_failure :: "job_env \<Rightarrow> string \<Rightarrow> int \<Rightarrow> string list \<Rightarrow> real list list \<Rightarrow> effect" where
  \<comment> \<open>lines 200-205\<close>
  "timeout_failure env video_name duration lines vectors =
     \<lparr>kind = Failed, appended = vectors, entry = None,
      logged = [video_name @ '' '' @ str_int duration @ ''s: Timeout after '' @
                str_int (elapsed_time env duration) @ '' seconds''],
      printed = lines @ [''Error processing '' @ video_name @ '' '' @ str_int duration @ ''s: Timeout''],
      uncaught = None\<rparr>"

definition recovery :: "job_env \<Rightarrow> string \<Rightarrow> int \<Rightarrow> effect" where
  \<comment> \<open>lines 171-205: the handler of \<open>TimeoutException\<close>\<close>
  "recovery env video_name duration =
     (case recover env duration of
        (lines, vectors, Inl msg) \<Rightarrow> timeout_failure env video_name duration lines vectors
      | (lines, vectors, Inr summary) \<Rightarrow>
          \<lparr>kind = Recovered, appended = vectors, entry = Some summary,
           logged = [], printed = lines, uncaught = None\<rparr>)"

definition attempt :: "job_env \<Rightarrow> string \<Rightarrow> int \<Rightarrow> int \<Rightarrow> effect" where
  \<comment> \<open>lines 147-211: one pass of the loop over the durations\<close>
  "attempt env video_name process_seed duration =
     (let video_seed = process_seed + duration
      in case fst (time_limit (raised_in_block (run_block env duration video_seed))) of
           None \<Rightarrow>
             (case first_missing (sparse_dir env duration) model_files of
                Some filename \<Rightarrow> failure video_name duration (filename @ '' reconstruction failed'') []
              | None \<Rightarrow>
                  (case summarise env (sparse_dir env duration) of
                     (vectors, Inl msg) \<Rightarrow> failure video_name duration msg vectors
                   | (vectors, Inr summary) \<Rightarrow>
                       \<lparr>kind = Success, appended = vectors, entry = Some summary,
                        logged = [], printed = [], uncaught = None\<rparr>))
         | Some (TimeoutException m) \<Rightarrow> recovery env video_name duration
         | Some (Error msg) \<Rightarrow> failure video_name duration msg []
         | Some KeyboardInterrupt \<Rightarrow>
             \<lparr>kind = Failed, appended = [], entry = None, logged = [], printed = [],
              uncaught = Some KeyboardInterrupt\<rparr>)"

record job_state =
  camera_params :: "(string \<times> real list) list"
  camera_params_out_duration :: "real list list"
  error_log :: "string list"
  stdout :: "string list"
  died :: "exn option"

definition apply_effect :: "int \<Rightarrow> effect \<Rightarrow> job_state \<Rightarrow> job_state" where
  "apply_effect duration eff st =
     \<lparr>camera_params =
        (case entry eff of
           None \<Rightarrow> camera_params st
         | Some summary \<Rightarrow> dict_set (str_int duration) summary (camera_params st)),
      camera_params_out_duration = camera_params_out_duration st @ appended eff,
      error_log = error_log st @ logged eff,
      stdout = stdout st @ printed eff,
      died = uncaught eff\<rparr>"

fun run_durations :: "job_env \<Rightarrow> string \<Rightarrow> int \<Rightarrow> int list \<Rightarrow> job_state \<Rightarrow> job_state" where
  \<comment> \<open>line 146: the loop; an exception that no handler takes ends it\<close>
  "run_durations env video_name process_seed [] st = st"
| "run_durations env video_name process_seed (duration # rest) st =
     (let st' = apply_effect duration (attempt env video_name process_seed duration) st
      in if died st' = None then run_durations env video_name process_seed rest st' else st')"

definition process_seed_of :: "job_env \<Rightarrow> int \<Rightarrow> string \<Rightarrow> int" where
  \<comment> \<open>line 128\<close>
  "process_seed_of env seed video_name = seed + py_hash env video_name mod 10000"

definition video_seed_of :: "job_env \<Rightarrow> int \<Rightarrow> string \<Rightarrow> int \<Rightarrow> int" where
  \<comment> \<open>line 150\<close>
  "video_seed_of env seed video_name duration = process_seed_of env seed video_name + duration"

record job_result =
  result_file :: "(string \<times> real list) list option"
  log_lines :: "string list"
  console :: "string list"
  exit_error :: "exn option"

definition initial_job_state :: job_state where
  "initial_job_state =
     \<lparr>camera_params = [], camera_params_out_duration = [], error_log = [], stdout = [], died = None\<rparr>"

definition process_single_video :: "job_env \<Rightarrow> string \<Rightarrow> int \<Rightarrow> int list \<Rightarrow> job_result" where
  \<comment> \<open>lines 118-227; \<open>result_file\<close> is what \<open>np.savez\<close> wrote at \<open>result_path\<close>\<close>
  "process_single_video env video_name seed durations =
     (let process_seed = process_seed_of env seed video_name;
          st = run_durations env video_name process_seed durations initial_job_state
      in if died st \<noteq> None then
           \<lparr>result_file = None, log_lines = error_log st, console = stdout st, exit_error = died st\<rparr>
         else if camera_params_out_duration st = [] then
           \<lparr>result_file = None, log_lines = error_log st, console = stdout st, exit_error = None\<rparr>
         else
           (case mean_std (camera_params_out_duration st) of
              Inl msg \<Rightarrow>
                \<lparr>result_file = None, log_lines = error_log st, console = stdout st,
                 exit_error = Some (Error msg)\<rparr>
            | Inr total_summary \<Rightarrow>
                (let camera_params = dict_set ''total'' total_summary (camera_params st)
                 in if savez_ok env then
                      \<lparr>result_file = Some camera_params, log_lines = error_log st,
                       console = stdout st, exit_error = None\<rparr>
                    else
                      \<lparr>result_file = None, log_lines = error_log st,
                       console = stdout st @ [str_nat (length camera_params)], exit_error = None\<rparr>)))"

subsection \<open>What the loops of a job compute\<close>

text \<open>
  \<open>dir_counts\<close> lists the subdirectories of a listing with the registered-image count
  that \<open>pycolmap\<close> reads from each, in the order of the listing; it is nothing when one
  of them cannot be read. \<open>set_entries\<close> is the dictionary that the loop over the
  durations leaves.
\<close>

fun dir_counts :: "job_env \<Rightarrow> (string \<times> entry) list \<Rightarrow> (string \<times> nat) list option" where
  "dir_counts env [] = Some []"
| "dir_counts env ((path, e) # rest) =
     (case e of
        NotDir \<Rightarrow> dir_counts env rest
      | Dir dir \<Rightarrow>
          (case pycolmap_Reconstruction env dir of
             Inl msg \<Rightarrow> None
           | Inr reconstruction \<Rightarrow>
               map_option (\<lambda>cs. (path, num_reg_images reconstruction) # cs) (dir_counts env rest)))"



subsection \<open>Environments for the examples\<close>

text \<open>
  In the examples a model directory holds the three files; the reader takes the number of
  registered images from the length of \<open>images.bin\<close> and one camera for each byte of
  \<open>cameras.bin\<close>, every camera with the parameters \<open>[number of images, 4]\<close>.
\<close>

definition model_dir :: "nat \<Rightarrow> nat \<Rightarrow> directory" where
  "model_dir n k =
     [''images.bin'' \<mapsto> replicate n (CHR ''i''), ''cameras.bin'' \<mapsto> replicate k (CHR ''c''),
      ''points3D.bin'' \<mapsto> ''p'']"

definition checkpoint :: "nat \<Rightarrow> directory" where
  "checkpoint n = model_dir n 1"

definition count_load :: "directory \<Rightarrow> string + reconstruction" where
  "count_load dir =
     (case dir ''images.bin'' of
        None \<Rightarrow> Inl ''cannot read images.bin''
      | Some images \<Rightarrow>
          (case dir ''cameras.bin'' of
             None \<Rightarrow> Inl ''cannot read cameras.bin''
           | Some cams \<Rightarrow>
               Inr \<lparr>cameras = replicate (length cams) [real (length images), 4],
                    num_reg_images = length images\<rparr>))"

definition timeout_env :: "(string \<times> entry) list option \<Rightarrow> job_env" where
  \<comment> \<open>every guarded block is interrupted by the deadline's timer\<close>
  "timeout_env listing =
     \<lparr>py_hash = (\<lambda>name. 0), run_block = (\<lambda>duration video_seed. Interrupted DeadlineTimer),
      sparse_dir = (\<lambda>duration. Map.empty), models_dir = (\<lambda>duration. listing),
      load_reconstruction = count_load, elapsed_time = (\<lambda>duration. 7), savez_ok = True\<rparr>"

definition success_env :: "(int \<Rightarrow> directory) \<Rightarrow> job_env" where
  \<comment> \<open>every guarded block runs to its end and leaves the given directory\<close>
  "success_env dirs =
     \<lparr>py_hash = (\<lambda>name. 0), run_block = (\<lambda>duration video_seed. Completed),
      sparse_dir = dirs, models_dir = (\<lambda>duration. None),
      load_reconstruction = count_load, elapsed_time = (\<lambda>duration. 7), savez_ok = True\<rparr>"

definition three_checkpoints :: "(string \<times> entry) list" where
  "three_checkpoints =
     [(''0'', Dir (checkpoint 3)), (''1'', Dir (checkpoint 7)), (''notes.txt'', NotDir),
      (''2'', Dir (checkpoint 5))]"



section \<open>video\_cut.py: process\_videos\<close>

text \<open>
  The control loop of the parent process. \<open>gpu_processes\<close> and \<open>gpu_queues\<close>, lists of
  \<open>num_gpus\<close> lists in the source, are functions on the indices below \<open>num_gpus\<close>. A
  process is the handle it got at its start (a running number) with the name of its
  video. \<open>alive t p\<close> is the answer of \<open>process.is_alive()\<close> for the handle \<open>p\<close> at the
  \<open>t\<close>-th call of the run; \<open>job video_name gpu_id\<close> is the result file the job of the
  video writes, if it writes one; \<open>files\<close> are the result files by video basename.
  \<open>started\<close> and \<open>joined\<close> record the calls of \<open>start\<close> and \<open>join\<close> in their order; the
  source keeps no such lists.
\<close>

type_synonym proc = "nat \<times> string"
type_synonym result = "(string \<times> real list) list"

record sched =
  gpu_processes :: "nat \<Rightarrow> proc list"
  gpu_queues :: "nat \<Rightarrow> string list"
  remaining_videos :: int
  completed_videos :: nat
  pbar :: nat
  all_results :: "(string \<times> result) list"
  files :: "string \<rightharpoonup> result"
  polls :: nat
  next_handle :: nat
  started :: "(nat \<times> proc) list"
  joined :: "(nat \<times> proc) list"

definition processes_per_gpu :: nat where
  "processes_per_gpu = 4"

fun assign :: "nat \<Rightarrow> nat \<Rightarrow> string list \<Rightarrow> (nat \<Rightarrow> string list) \<Rightarrow> (nat \<Rightarrow> string list)" where
  \<comment> \<open>lines 257-259, from the index \<open>i\<close> on\<close>
  "assign num_gpus i [] groups = groups"
| "assign num_gpus i (video_name # rest) groups =
     (let gpu_idx = i mod num_gpus
      in assign num_gpus (Suc i) rest (groups(gpu_idx := groups gpu_idx @ [video_name])))"

definition gpu_video_groups :: "nat \<Rightarrow> string list \<Rightarrow> py_error + (nat \<Rightarrow> string list)" where
  \<comment> \<open>lines 256-259; \<open>i % num_gpus\<close> raises when there is no GPU\<close>
  "gpu_video_groups num_gpus video_list =
     (if num_gpus = 0 \<and> video_list \<noteq> [] then Inl ZeroDivisionError
      else Inr (assign num_gpus 0 video_list (\<lambda>gpu_id. [])))"

definition start_next :: "nat \<Rightarrow> sched \<Rightarrow> sched" where
  \<comment> \<open>lines 275-280 and 309-315 without the counter: the head of the queue is popped and a
      process is started for it; nothing happens on an empty queue\<close>
  "start_next gpu_id st =
     (case gpu_queues st gpu_id of
        [] \<Rightarrow> st
      | video_name # rest \<Rightarrow>
          st\<lparr>gpu_queues := (gpu_queues st)(gpu_id := rest),
             gpu_processes := (gpu_processes st)
               (gpu_id := gpu_processes st gpu_id @ [(next_handle st, video_name)]),
             next_handle := Suc (next_handle st),
             started := started st @ [(gpu_id, next_handle st, video_name)]\<rparr>)"

fun fill :: "nat \<Rightarrow> nat \<Rightarrow> sched \<Rightarrow> sched" where
  \<comment> \<open>line 274: the loop body runs \<open>k\<close> times\<close>
  "fill 0 gpu_id st = st"
| "fill (Suc k) gpu_id st = fill k gpu_id (start_next gpu_id st)"

definition total_queued :: "nat \<Rightarrow> sched \<Rightarrow> nat" where
  \<comment> \<open>\<open>sum(len(q) for q in gpu_queues)\<close>\<close>
  "total_queued num_gpus st = sum_list (map (\<lambda>gpu_id. length (gpu_queues st gpu_id)) [0 ..< num_gpus])"

definition init_processes :: "nat \<Rightarrow> sched \<Rightarrow> sched" where
  \<comment> \<open>lines 273-284\<close>
  "init_processes num_gpus st =
     (let st' = fold (\<lambda>gpu_id st. fill (min processes_per_gpu (length (gpu_queues st gpu_id))) gpu_id st)
                  [0 ..< num_gpus] st
      in st'\<lparr>remaining_videos := int (total_queued num_gpus st'), completed_videos := 0\<rparr>)"

definition initial_sched :: "(nat \<Rightarrow> string list) \<Rightarrow> (string \<rightharpoonup> result) \<Rightarrow> sched" where
  \<comment> \<open>lines 261-270\<close>
  "initial_sched groups files0 =
     \<lparr>gpu_processes = (\<lambda>gpu_id. []), gpu_queues = groups, remaining_videos = 0,
      completed_videos = 0, pbar = 0, all_results = [], files = files0, polls = 0,
      next_handle = 0, started = [], joined = []\<rparr>"

definition collect :: "(string \<Rightarrow> nat \<Rightarrow> result option) \<Rightarrow> nat \<Rightarrow> string \<Rightarrow> sched \<Rightarrow> sched" where
  \<comment> \<open>lines 299-303 and 329-333, for a process that has ended: what it wrote is in place,
      and the result file is read when it exists\<close>
  "collect job gpu_id video_name st =
     (let video_basename = video_basename_of video_name;
          now = (case job video_name gpu_id of
                   None \<Rightarrow> files st
                 | Some written \<Rightarrow> (files st)(video_basename \<mapsto> written))
      in st\<lparr>files := now,
            all_results := (case now video_basename of
                              None \<Rightarrow> all_results st
                            | Some result \<Rightarrow> all_results st @ [(video_basename, result)])\<rparr>)"

definition pop_at :: "nat \<Rightarrow> 'a list \<Rightarrow> 'a list" where
  \<comment> \<open>the list after \<open>pop(i)\<close>\<close>
  "pop_at i xs = take i xs @ drop (Suc i) xs"

definition poll_step ::
  "(string \<Rightarrow> nat \<Rightarrow> result option) \<Rightarrow> (nat \<Rightarrow> nat \<Rightarrow> bool) \<Rightarrow> nat \<Rightarrow> nat \<Rightarrow> sched \<Rightarrow> nat \<times> sched" where
  \<comment> \<open>lines 291-317: one pass of the inner loop, at the index \<open>i\<close>; the result is the next
      index and the state\<close>
  "poll_step job alive gpu_id i st =
     (case gpu_processes st gpu_id ! i of
        (process, video_name) \<Rightarrow>
          if \<not> alive (polls st) process then
            (let st1 = st\<lparr>polls := Suc (polls st),
                         joined := joined st @ [(gpu_id, process, video_name)],
                         completed_videos := Suc (completed_videos st),
                         pbar := Suc (pbar st)\<rparr>;
                 st2 = collect job gpu_id video_name st1;
                 st3 = st2\<lparr>gpu_processes := (gpu_processes st2)
                              (gpu_id := pop_at i (gpu_processes st2 gpu_id))\<rparr>
             in if gpu_queues st3 gpu_id \<noteq> []
                then (i, (start_next gpu_id st3)\<lparr>remaining_videos := remaining_videos st3 - 1\<rparr>)
                else (i, st3))
          else (Suc i, st\<lparr>polls := Suc (polls st)\<rparr>))"

function poll_gpu ::
  "(string \<Rightarrow> nat \<Rightarrow> result option) \<Rightarrow> (nat \<Rightarrow> nat \<Rightarrow> bool) \<Rightarrow> nat \<Rightarrow> nat \<Rightarrow> sched \<Rightarrow> sched" where
  \<comment> \<open>lines 289-317: the inner loop, from the index \<open>i\<close> on\<close>
  "poll_gpu job alive gpu_id i st =
     (if i < length (gpu_processes st gpu_id)
      then (case poll_step job alive gpu_id i st of
              (i', st') \<Rightarrow> poll_gpu job alive gpu_id i' st')
      else st)"
  by pat_completeness auto
termination
proof (relation "measure (\<lambda>(job, alive, gpu_id, i, st).
    length (gpu_queues st gpu_id) + length (gpu_processes st gpu_id) - i)")
  show "wf (measure (\<lambda>(job, alive, gpu_id, i, st).
    length (gpu_queues st gpu_id) + length (gpu_processes st gpu_id) - i))"
    by simp
next
  fix job :: "string \<Rightarrow> nat \<Rightarrow> result option" and alive :: "nat \<Rightarrow> nat \<Rightarrow> bool"
    and gpu_id i :: nat and st :: sched and i' :: nat and st' :: sched
  assume i: "i < length (gpu_processes st gpu_id)"
    and p: "(i', st') = poll_step job alive gpu_id i st"
  define x where "x = poll_step job alive gpu_id i st"
  note x = x_def
  obtain process video_name where pv: "gpu_processes st gpu_id ! i = (process, video_name)"
    by (cases "gpu_processes st gpu_id ! i")
  have "length (gpu_queues st' gpu_id) + length (gpu_processes st' gpu_id) - i'
      < length (gpu_queues st gpu_id) + length (gpu_processes st gpu_id) - i"
  proof (cases "alive (polls st) process")
    case True
    with x p pv have "i' = Suc i" "gpu_queues st' = gpu_queues st" "gpu_processes st' = gpu_processes st"
      by (simp_all add: poll_step_def)
    with i show ?thesis by simp
  next
    case False
    show ?thesis
    proof (cases "gpu_queues st gpu_id")
      case Nil
      with x p pv False have "i' = i" "gpu_queues st' gpu_id = []"
        "gpu_processes st' gpu_id = pop_at i (gpu_processes st gpu_id)"
        by (simp_all add: poll_step_def collect_def Let_def)
      with i Nil show ?thesis by (simp add: pop_at_def)
    next
      case (Cons v rest)
      with x p pv False have "i' = i" "gpu_queues st' gpu_id = rest"
        "gpu_processes st' gpu_id = pop_at i (gpu_processes st gpu_id) @ [(next_handle st, v)]"
        by (simp_all add: poll_step_def collect_def Let_def start_next_def)
      with i Cons show ?thesis by (simp add: pop_at_def)
    qed
  qed
  then show "((job, alive, gpu_id, i', st'), (job, alive, gpu_id, i, st)) \<in>
      measure (\<lambda>(job, alive, gpu_id, i, st).
        length (gpu_queues st gpu_id) + length (gpu_processes st gpu_id) - i)"
    by simp
qed

declare poll_gpu.simps [simp del]

definition sweep ::
  "(string \<Rightarrow> nat \<Rightarrow> result option) \<Rightarrow> (nat \<Rightarrow> nat \<Rightarrow> bool) \<Rightarrow> nat \<Rightarrow> sched \<Rightarrow> sched" where
  \<comment> \<open>lines 287-317: the body of the outer loop\<close>
  "sweep job alive num_gpus st = fold (\<lambda>gpu_id st. poll_gpu job alive gpu_id 0 st) [0 ..< num_gpus] st"

definition busy :: "nat \<Rightarrow> sched \<Rightarrow> bool" where
  \<comment> \<open>line 286: \<open>remaining_videos > 0 or any(gpu_processes)\<close>\<close>
  "busy num_gpus st \<longleftrightarrow>
     remaining_videos st > 0 \<or> list_ex (\<lambda>gpu_id. gpu_processes st gpu_id \<noteq> []) [0 ..< num_gpus]"

fun run ::
  "nat \<Rightarrow> (string \<Rightarrow> nat \<Rightarrow> result option) \<Rightarrow> (nat \<Rightarrow> nat \<Rightarrow> bool) \<Rightarrow> nat \<Rightarrow> sched \<Rightarrow> sched option" where
  \<comment> \<open>line 286: the outer loop, for at most \<open>fuel\<close> tests of its condition; nothing when
      the loop has not ended by then\<close>
  "run 0 job alive num_gpus st = None"
| "run (Suc fuel) job alive num_gpus st =
     (if busy num_gpus st then run fuel job alive num_gpus (sweep job alive num_gpus st) else Some st)"

definition drain_gpu :: "(string \<Rightarrow> nat \<Rightarrow> result option) \<Rightarrow> nat \<Rightarrow> sched \<Rightarrow> sched" where
  \<comment> \<open>lines 324-333 for one GPU: every process left in the list is joined\<close>
  "drain_gpu job gpu_id st =
     fold (\<lambda>(process, video_name) st.
             collect job gpu_id video_name
               (st\<lparr>joined := joined st @ [(gpu_id, process, video_name)], pbar := Suc (pbar st)\<rparr>))
          (gpu_processes st gpu_id) st"

definition drain :: "(string \<Rightarrow> nat \<Rightarrow> result option) \<Rightarrow> nat \<Rightarrow> sched \<Rightarrow> sched" where
  \<comment> \<open>lines 323-333\<close>
  "drain job num_gpus st = fold (drain_gpu job) [0 ..< num_gpus] st"

definition schedule ::
  "(string \<Rightarrow> nat \<Rightarrow> result option) \<Rightarrow> (nat \<Rightarrow> nat \<Rightarrow> bool) \<Rightarrow> nat \<Rightarrow> (string \<rightharpoonup> result) \<Rightarrow> nat
     \<Rightarrow> string list \<Rightarrow> (py_error + sched) option" where
  \<comment> \<open>lines 252-333, on the sorted list of the videos\<close>
  "schedule job alive fuel files0 num_gpus video_list =
     (case gpu_video_groups num_gpus video_list of
        Inl e \<Rightarrow> Some (Inl e)
      | Inr groups \<Rightarrow>
          (case run fuel job alive num_gpus (init_processes num_gpus (initial_sched groups files0)) of
             None \<Rightarrow> None
           | Some st \<Rightarrow> Some (Inr (drain job num_gpus st))))"

definition combine :: "(string \<times> result) list \<Rightarrow> (string \<times> result) list" where
  \<comment> \<open>lines 336-339: \<open>all_camera_params\<close>\<close>
  "combine results =
     fold (\<lambda>(video_basename, params) acc.
             if params \<noteq> [] then dict_set video_basename params acc else acc)
          results []"

definition as_camera :: "result \<Rightarrow> camera" where
  \<comment> \<open>the arrays of a result file as the analysis reads them\<close>
  "as_camera params = map_of (map (\<lambda>(key, vec). (key, map Fin vec)) params)"

definition process_videos ::
  "(string \<Rightarrow> job_env) \<Rightarrow> (nat \<Rightarrow> nat \<Rightarrow> bool) \<Rightarrow> nat \<Rightarrow> (string \<rightharpoonup> result) \<Rightarrow> nat \<Rightarrow> string list
     \<Rightarrow> int \<Rightarrow> int list
     \<Rightarrow> (py_error + ((string \<rightharpoonup> (bkey \<rightharpoonup> real)) \<times> (string \<rightharpoonup> mag_lists))) option" where
  \<comment> \<open>lines 229-345: \<open>env_of\<close> is what the job of each video finds; the result is nothing
      when the control loop has not ended within \<open>fuel\<close> tests of its condition\<close>
  "process_videos env_of alive fuel files0 num_gpus video_list seed durations =
     (case schedule (\<lambda>video_name gpu_id.
                       result_file (process_single_video (env_of video_name) video_name seed durations))
             alive fuel files0 num_gpus (sort video_list) of
        None \<Rightarrow> None
      | Some (Inl e) \<Rightarrow> Some (Inl e)
      | Some (Inr st) \<Rightarrow>
          Some (analyze_camera_stats_magnitude
                  (map (\<lambda>(video_basename, params). (video_basename, as_camera params))
                     (combine (all_results st)))
                  (map str_int durations) 4))"

subsection \<open>Invariants of the control loop\<close>

text \<open>
  \<open>started_on\<close> and \<open>joined_on\<close> are the processes started and joined on one GPU, in
  their order. \<open>core_inv\<close>: on every GPU the videos started, followed by the queue, are
  the group of the GPU; a process started is in the list of its GPU or joined, never
  both and never twice; the handles are distinct. \<open>cap_inv\<close>: no GPU runs more than
  \<open>processes_per_gpu\<close> processes, a GPU with a queue runs exactly that many, and the
  counter is the number of videos queued. \<open>reachable\<close> are the states after any number of
  passes of the inner loop, on any GPU and index, whatever \<open>is_alive\<close> answers.
\<close>

definition started_on :: "nat \<Rightarrow> sched \<Rightarrow> proc list" where
  "started_on gpu_id st = map snd (filter (\<lambda>(g, p). g = gpu_id) (started st))"




definition core_fields ::
  "sched \<Rightarrow> (nat \<Rightarrow> proc list) \<times> (nat \<Rightarrow> string list) \<times> (nat \<times> proc) list \<times> (nat \<times> proc) list \<times> nat" where
  "core_fields st = (gpu_processes st, gpu_queues st, started st, joined st, next_handle st)"



inductive_set reachable :: "(string \<Rightarrow> nat \<Rightarrow> result option) \<Rightarrow> nat \<Rightarrow> sched \<Rightarrow> sched set"
  for job :: "string \<Rightarrow> nat \<Rightarrow> result option" and N :: nat and st0 :: sched where
  initial: "st0 \<in> reachable job N st0"
| polled: "st \<in> reachable job N st0 \<Longrightarrow> g < N \<Longrightarrow> i < length (gpu_processes st g) \<Longrightarrow>
     snd (poll_step job alive g i st) \<in> reachable job N st0"



subsection \<open>A run for the examples\<close>



section \<open>Properties of the magnitude analysis\<close>

lemma dom_new_counts: "dom new_counts = Mag ` set magnitudes"
  by (simp add: new_counts_def dom_map_of_conv_image_fst image_image)

lemma dom_new_lists: "dom new_lists = Mag ` set magnitudes"
  by (simp add: new_lists_def dom_map_of_conv_image_fst image_image)

lemma mag_loop_key: "mag_loop vec i ms = Inr (Some (mag, pv)) \<Longrightarrow> mag \<in> set ms"
  by (induction ms) (auto split: sum.splits if_splits simp: Let_def)

lemma placed_key: "placed i c d = Some (k, x) \<Longrightarrow> k \<in> set all_keys"
  by (auto simp: placed_def all_keys_def split: option.splits sum.splits dest: mag_loop_key)

lemma record_in_effect:
  assumes "wf_at st d" "k \<in> set all_keys"
  shows "\<exists>st'. record_in d k x st = Inr st' \<and> wf_at st' d \<and> total_counts st' = total_counts st
     \<and> (\<forall>d'. d' \<noteq> d \<longrightarrow> magnitude_stats st' d' = magnitude_stats st d' \<and> detailed_stats st' d' = detailed_stats st d')
     \<and> (\<forall>k'. cnt st' d k' = cnt st d k' + (if k' = k then 1 else 0))
     \<and> (\<forall>k'. lst st' d k' = lst st d k' @ (if k' = k then [x] else []))"
proof -
  from assms obtain mc ml where h: "magnitude_stats st d = Some mc" "detailed_stats st d = Some ml"
    "dom mc = set all_keys" "dom ml = set all_keys" by (auto simp: wf_at_def)
  with assms(2) obtain c l where cl: "mc k = Some c" "ml k = Some l" by blast
  show ?thesis using h cl assms(2)
    by (auto simp: record_in_def incr_def append_to_def dd_get_def wf_at_def cnt_def lst_def insert_absorb)
qed

lemma mag_loop_Inr: "np_index vec i = Inr x \<Longrightarrow> \<exists>r. mag_loop vec i ms = Inr r"
  by (induction ms) (auto simp: Let_def)

lemma bump_total_simps [simp]:
  "magnitude_stats (bump_total d st) = magnitude_stats st"
  "detailed_stats (bump_total d st) = detailed_stats st"
  "total_counts (bump_total d st) = (total_counts st)(d := total_counts st d + 1)"
  by (simp_all add: bump_total_def)

lemma wf_at_bump [simp]: "wf_at (bump_total d st) d' = wf_at st d'"
  by (simp add: wf_at_def)

lemma cnt_bump [simp]: "cnt (bump_total d st) = cnt st"
  by (simp add: cnt_def fun_eq_iff)

lemma lst_bump [simp]: "lst (bump_total d st) = lst st"
  by (simp add: lst_def fun_eq_iff)

lemma wf_at_cong: "magnitude_stats st' d = magnitude_stats st d \<Longrightarrow> detailed_stats st' d = detailed_stats st d
   \<Longrightarrow> wf_at st' d = wf_at st d"
  by (simp add: wf_at_def)

lemma cnt_cong: "magnitude_stats st' d = magnitude_stats st d \<Longrightarrow> cnt st' d k = cnt st d k"
  by (simp add: cnt_def)

lemma lst_cong: "detailed_stats st' d = detailed_stats st d \<Longrightarrow> lst st' d k = lst st d k"
  by (simp add: lst_def)

lemma record_in_post:
  assumes "wf_at st d" "k \<in> set all_keys"
  shows "\<exists>st'. record_in d k x st = Inr st' \<and>
           visit_post st (bump_total d st') d (\<lambda>k'. if k = k' then [x] else [])"
proof -
  from record_in_effect [OF assms, of x] obtain st' where s: "record_in d k x st = Inr st'" "wf_at st' d"
     "total_counts st' = total_counts st"
     "\<And>d'. d' \<noteq> d \<Longrightarrow> magnitude_stats st' d' = magnitude_stats st d' \<and> detailed_stats st' d' = detailed_stats st d'"
     "\<And>k'. cnt st' d k' = cnt st d k' + (if k' = k then 1 else 0)"
     "\<And>k'. lst st' d k' = lst st d k' @ (if k' = k then [x] else [])"
    by blast
  have "visit_post st (bump_total d st') d (\<lambda>k'. if k = k' then [x] else [])"
    unfolding visit_post_def
  proof (intro conjI allI impI)
    fix d' assume w: "wf_at st d'"
    show "wf_at (bump_total d st') d'"
    proof (cases "d' = d")
      case True then show ?thesis using s(2) by simp
    next
      case False
      from s(4) [OF False] have "wf_at st' d' = wf_at st d'" by (intro wf_at_cong) simp_all
      with w show ?thesis by simp
    qed
  next
    fix d' show "total_counts (bump_total d st') d' = total_counts st d' + (if d' = d then 1 else 0)"
      using s(3) by simp
  next
    fix d' k'
    show "cnt (bump_total d st') d' k' = cnt st d' k' + (if d' = d then length (if k = k' then [x] else []) else 0)"
    proof (cases "d' = d")
      case True then show ?thesis using s(5) [of k'] by auto
    next
      case False
      from s(4) [OF False] have "cnt st' d' k' = cnt st d' k'" by (intro cnt_cong) simp
      with False show ?thesis by simp
    qed
  next
    fix d' k'
    show "lst (bump_total d st') d' k' = lst st d' k' @ (if d' = d then if k = k' then [x] else [] else [])"
    proof (cases "d' = d")
      case True then show ?thesis using s(6) [of k'] by auto
    next
      case False
      from s(4) [OF False] have "lst st' d' k' = lst st d' k'" by (intro lst_cong) simp
      with False show ?thesis by simp
    qed
  qed
  with s(1) show ?thesis by blast
qed

lemma visit_effect:
  assumes "wf_at st d" "index_ok i c d"
  shows "\<exists>st'. visit i v c d st = Inr st' \<and> visit_post st st' d (hits i v c d)"
proof (cases "c d")
  case None
  have k: "FailedKey \<in> set all_keys" by (simp add: all_keys_def)
  have h: "hits i v c d = (\<lambda>k'. if FailedKey = k' then [(v, FailedMark)] else [])"
    using None by (auto simp: hits_def placed_def fun_eq_iff)
  from record_in_post [OF assms(1) k, of "(v, FailedMark)"] None show ?thesis
    by (auto simp: visit_def h)
next
  case (Some vec)
  with assms(2) obtain x where x: "np_index vec i = Inr x" by (auto simp: index_ok_def split: sum.splits)
  from mag_loop_Inr [OF x] obtain r where r: "mag_loop vec i magnitudes = Inr r" by blast
  show ?thesis
  proof (cases r)
    case None
    have h: "hits i v c d = (\<lambda>k'. [])"
      using \<open>c d = Some vec\<close> r None by (auto simp: hits_def placed_def fun_eq_iff)
    show ?thesis using \<open>c d = Some vec\<close> r None
      by (simp add: visit_def h visit_post_def)
  next
    case (Some mp)
    obtain mag pv where mp: "mp = (mag, pv)" by (cases mp)
    have k: "Mag mag \<in> set all_keys" using r Some mp mag_loop_key [of vec i magnitudes mag pv]
      by (simp add: all_keys_def)
    have h: "hits i v c d = (\<lambda>k'. if Mag mag = k' then [(v, Val pv)] else [])"
      using \<open>c d = Some vec\<close> r Some mp by (auto simp: hits_def placed_def fun_eq_iff)
    from record_in_post [OF assms(1) k, of "(v, Val pv)"] show ?thesis
      using \<open>c d = Some vec\<close> r Some mp h by (auto simp: visit_def)
  qed
qed

lemma visit_durations_effect:
  assumes "\<forall>d \<in> set ds. wf_at st d" "\<forall>d \<in> set ds. index_ok i c d"
  shows "\<exists>st'. visit_durations i v c ds st = Inr st' \<and>
     (\<forall>d. wf_at st d \<longrightarrow> wf_at st' d) \<and>
     (\<forall>d. total_counts st' d = total_counts st d + count_list ds d) \<and>
     (\<forall>d k. cnt st' d k = cnt st d k + count_list ds d * length (hits i v c d k)) \<and>
     (\<forall>d k. lst st' d k = lst st d k @ concat (replicate (count_list ds d) (hits i v c d k)))"
  using assms
proof (induction ds arbitrary: st)
  case Nil
  then show ?case by simp
next
  case (Cons d ds)
  from Cons.prems have "wf_at st d" "index_ok i c d" by simp_all
  from visit_effect [OF this, of v] obtain st1 where
    s1: "visit i v c d st = Inr st1" and p1: "visit_post st st1 d (hits i v c d)" by blast
  from p1 Cons.prems have "\<forall>d \<in> set ds. wf_at st1 d" by (auto simp: visit_post_def)
  from Cons.IH [OF this] Cons.prems obtain st2 where
    s2: "visit_durations i v c ds st1 = Inr st2" and
    w2: "\<And>d. wf_at st1 d \<Longrightarrow> wf_at st2 d" and
    t2: "\<And>d. total_counts st2 d = total_counts st1 d + count_list ds d" and
    c2: "\<And>d k. cnt st2 d k = cnt st1 d k + count_list ds d * length (hits i v c d k)" and
    l2: "\<And>d k. lst st2 d k = lst st1 d k @ concat (replicate (count_list ds d) (hits i v c d k))"
    by auto
  from p1 have
    w1: "\<And>d'. wf_at st d' \<Longrightarrow> wf_at st1 d'" and
    t1: "\<And>d'. total_counts st1 d' = total_counts st d' + (if d' = d then 1 else 0)" and
    c1: "\<And>d' k. cnt st1 d' k = cnt st d' k + (if d' = d then length (hits i v c d k) else 0)" and
    l1: "\<And>d' k. lst st1 d' k = lst st d' k @ (if d' = d then hits i v c d k else [])"
    by (simp_all add: visit_post_def)
  have "visit_durations i v c (d # ds) st = Inr st2" using s1 s2 by simp
  moreover have "\<forall>d'. wf_at st d' \<longrightarrow> wf_at st2 d'" using w1 w2 by blast
  moreover have "\<forall>d'. total_counts st2 d' = total_counts st d' + count_list (d # ds) d'"
    by (simp add: t1 t2)
  moreover have "\<forall>d' k. cnt st2 d' k = cnt st d' k + count_list (d # ds) d' * length (hits i v c d' k)"
    by (simp add: c1 c2)
  moreover have "\<forall>d' k. lst st2 d' k = lst st d' k @ concat (replicate (count_list (d # ds) d') (hits i v c d' k))"
    by (simp add: l1 l2)
  ultimately show ?case by blast
qed

lemma visit_videos_effect:
  assumes "\<forall>d \<in> set ds. wf_at st d" "\<forall>(v, c) \<in> set cs. \<forall>d \<in> set ds. index_ok i c d"
  shows "\<exists>st'. visit_videos i cs ds st = Inr st' \<and>
     (\<forall>d. wf_at st d \<longrightarrow> wf_at st' d) \<and>
     (\<forall>d. total_counts st' d = total_counts st d + count_list ds d * length cs) \<and>
     (\<forall>d k. cnt st' d k = cnt st d k + count_list ds d * length (all_hits i cs d k)) \<and>
     (\<forall>d k. lst st' d k = lst st d k @
         concat (map (\<lambda>(v, c). concat (replicate (count_list ds d) (hits i v c d k))) cs))"
  using assms
proof (induction cs arbitrary: st)
  case Nil
  then show ?case by (simp add: all_hits_def)
next
  case (Cons vc cs)
  obtain v c where vc: "vc = (v, c)" by (cases vc)
  from Cons.prems vc have ok: "\<forall>d \<in> set ds. index_ok i c d" by simp
  from visit_durations_effect [OF Cons.prems(1) ok, of v] obtain st1 where
    s1: "visit_durations i v c ds st = Inr st1" and
    w1: "\<And>d. wf_at st d \<Longrightarrow> wf_at st1 d" and
    t1: "\<And>d. total_counts st1 d = total_counts st d + count_list ds d" and
    c1: "\<And>d k. cnt st1 d k = cnt st d k + count_list ds d * length (hits i v c d k)" and
    l1: "\<And>d k. lst st1 d k = lst st d k @ concat (replicate (count_list ds d) (hits i v c d k))"
    by auto
  have wf1: "\<forall>d \<in> set ds. wf_at st1 d" using w1 Cons.prems(1) by blast
  have ok': "\<forall>(v, c) \<in> set cs. \<forall>d \<in> set ds. index_ok i c d" using Cons.prems(2) by simp
  from Cons.IH [OF wf1 ok'] obtain st2 where
    s2: "visit_videos i cs ds st1 = Inr st2" and
    w2: "\<And>d. wf_at st1 d \<Longrightarrow> wf_at st2 d" and
    t2: "\<And>d. total_counts st2 d = total_counts st1 d + count_list ds d * length cs" and
    c2: "\<And>d k. cnt st2 d k = cnt st1 d k + count_list ds d * length (all_hits i cs d k)" and
    l2: "\<And>d k. lst st2 d k = lst st1 d k @
         concat (map (\<lambda>(v, c). concat (replicate (count_list ds d) (hits i v c d k))) cs)"
    by auto
  have "visit_videos i (vc # cs) ds st = Inr st2" using s1 s2 vc by simp
  moreover have "\<forall>d. wf_at st d \<longrightarrow> wf_at st2 d" using w1 w2 by blast
  moreover have "\<forall>d. total_counts st2 d = total_counts st d + count_list ds d * length (vc # cs)"
    by (simp add: t1 t2)
  moreover have "\<forall>d k. cnt st2 d k = cnt st d k + count_list ds d * length (all_hits i (vc # cs) d k)"
    by (simp add: c1 c2 vc all_hits_def algebra_simps)
  moreover have "\<forall>d k. lst st2 d k = lst st d k @
         concat (map (\<lambda>(v, c). concat (replicate (count_list ds d) (hits i v c d k))) (vc # cs))"
    by (simp add: l1 l2 vc)
  ultimately show ?case by blast
qed

lemma fresh_empty: "fresh empty_stats"
  by (simp add: fresh_def empty_stats_def cnt_def lst_def)

lemma new_counts_zero: "new_counts k = Some c \<Longrightarrow> c = 0"
  by (auto simp: new_counts_def magnitudes_def split: if_splits)

lemma new_lists_nil: "new_lists k = Some l \<Longrightarrow> l = []"
  by (auto simp: new_lists_def magnitudes_def split: if_splits)

lemma all_keys_set: "set all_keys = insert FailedKey (Mag ` set magnitudes)"
  by (auto simp: all_keys_def)

lemma init_step_fresh:
  fixes st :: stats_state and d :: string
  assumes "fresh st"
  defines "st1 \<equiv> st\<lparr>magnitude_stats := (magnitude_stats st)
              (d \<mapsto> (dd_get new_counts (magnitude_stats st) d)(FailedKey \<mapsto> 0)),
           detailed_stats := (detailed_stats st)
              (d \<mapsto> (dd_get new_lists (detailed_stats st) d)(FailedKey \<mapsto> []))\<rparr>"
  shows "fresh st1 \<and> wf_at st1 d \<and> (\<forall>d'. wf_at st d' \<longrightarrow> wf_at st1 d')"
proof -
  have wfd: "wf_at st1 d"
  proof (cases "wf_at st d")
    case True
    then show ?thesis unfolding st1_def
      by (auto simp: wf_at_def dd_get_def all_keys_set)
  next
    case False
    with assms(1) have "magnitude_stats st d = None" "detailed_stats st d = None"
      by (auto simp: fresh_def)
    then show ?thesis unfolding st1_def
      by (simp add: wf_at_def dd_get_def all_keys_set dom_new_counts dom_new_lists)
  qed
  have oth: "\<And>d'. d' \<noteq> d \<Longrightarrow> magnitude_stats st1 d' = magnitude_stats st d' \<and> detailed_stats st1 d' = detailed_stats st d'"
    by (simp add: st1_def)
  have keep: "\<forall>d'. wf_at st d' \<longrightarrow> wf_at st1 d'"
  proof (intro allI impI)
    fix d' assume w: "wf_at st d'"
    show "wf_at st1 d'"
    proof (cases "d' = d")
      case True with wfd show ?thesis by simp
    next
      case False
      from oth [OF False] have "wf_at st1 d' = wf_at st d'" by (intro wf_at_cong) simp_all
      with w show ?thesis by simp
    qed
  qed
  have tot: "\<forall>d'. total_counts st1 d' = 0" using assms(1) by (simp add: st1_def fresh_def)
  have z: "\<And>k. cnt st d k = 0" "\<And>k. lst st d k = []" using assms(1) by (simp_all add: fresh_def)
  have cd: "\<And>k. cnt st1 d k = 0"
  proof -
    fix k show "cnt st1 d k = 0"
      using z(1) [of k] new_counts_zero [of k]
      by (auto simp: st1_def cnt_def dd_get_def split: option.splits)
  qed
  have ld: "\<And>k. lst st1 d k = []"
  proof -
    fix k show "lst st1 d k = []"
      using z(2) [of k] new_lists_nil [of k]
      by (auto simp: st1_def lst_def dd_get_def split: option.splits)
  qed
  have cl: "\<forall>d' k. cnt st1 d' k = 0 \<and> lst st1 d' k = []"
  proof (intro allI)
    fix d' k
    show "cnt st1 d' k = 0 \<and> lst st1 d' k = []"
    proof (cases "d' = d")
      case True with cd ld show ?thesis by simp
    next
      case False
      from oth [OF False] have "cnt st1 d' k = cnt st d' k" "lst st1 d' k = lst st d' k"
        by (simp_all add: cnt_def lst_def)
      with assms(1) show ?thesis by (simp add: fresh_def)
    qed
  qed
  have dich: "\<forall>d'. wf_at st1 d' \<or> (magnitude_stats st1 d' = None \<and> detailed_stats st1 d' = None)"
  proof
    fix d'
    show "wf_at st1 d' \<or> (magnitude_stats st1 d' = None \<and> detailed_stats st1 d' = None)"
    proof (cases "d' = d")
      case True with wfd show ?thesis by simp
    next
      case False
      with oth [OF False] keep assms(1) show ?thesis by (auto simp: fresh_def)
    qed
  qed
  from tot cl dich wfd keep show ?thesis by (simp add: fresh_def)
qed

lemma init_failed_fresh:
  "fresh st \<Longrightarrow> fresh (init_failed ds st) \<and> (\<forall>d \<in> set ds. wf_at (init_failed ds st) d) \<and>
     (\<forall>d. wf_at st d \<longrightarrow> wf_at (init_failed ds st) d)"
proof (induction ds arbitrary: st)
  case Nil
  then show ?case by simp
next
  case (Cons d ds)
  let ?st1 = "st\<lparr>magnitude_stats := (magnitude_stats st)
              (d \<mapsto> (dd_get new_counts (magnitude_stats st) d)(FailedKey \<mapsto> 0)),
           detailed_stats := (detailed_stats st)
              (d \<mapsto> (dd_get new_lists (detailed_stats st) d)(FailedKey \<mapsto> []))\<rparr>"
  from init_step_fresh [OF Cons.prems, of d]
  have f1: "fresh ?st1" and w1: "wf_at ?st1 d" and k1: "\<forall>d'. wf_at st d' \<longrightarrow> wf_at ?st1 d'" by simp_all
  from Cons.IH [OF f1] have
    a: "fresh (init_failed ds ?st1)" and
    b: "\<forall>d \<in> set ds. wf_at (init_failed ds ?st1) d" and
    c: "\<forall>d. wf_at ?st1 d \<longrightarrow> wf_at (init_failed ds ?st1) d" by simp_all
  have e: "init_failed (d # ds) st = init_failed ds ?st1" by simp
  show ?case unfolding e using a b c w1 k1 by auto
qed

lemmas analyze_eval = recall_at_def analyze_camera_stats_magnitude_def visit_def record_in_def
  incr_def append_to_def dd_get_def bump_total_def recall_of_def empty_stats_def new_counts_def
  new_lists_def magnitudes_def np_index_def Let_def

lemma analyze_result:
  assumes ok: "\<forall>(v, c) \<in> set cs. \<forall>d \<in> set ds. index_ok i c d"
  shows "\<exists>st. analyze_camera_stats_magnitude cs ds i = Inr (recall_of st, detailed_stats st) \<and>
     (\<forall>d \<in> set ds. wf_at st d) \<and>
     (\<forall>d. total_counts st d = count_list ds d * length cs) \<and>
     (\<forall>d k. cnt st d k = count_list ds d * length (all_hits i cs d k)) \<and>
     (\<forall>d k. lst st d k = concat (map (\<lambda>(v, c). concat (replicate (count_list ds d) (hits i v c d k))) cs))"
proof -
  let ?st0 = "init_failed ds empty_stats"
  from init_failed_fresh [OF fresh_empty, of ds]
  have f0: "fresh ?st0" and w0: "\<forall>d \<in> set ds. wf_at ?st0 d" by simp_all
  from visit_videos_effect [OF w0 ok] obtain st where
    s: "visit_videos i cs ds ?st0 = Inr st" and
    w: "\<And>d. wf_at ?st0 d \<Longrightarrow> wf_at st d" and
    t: "\<And>d. total_counts st d = total_counts ?st0 d + count_list ds d * length cs" and
    c: "\<And>d k. cnt st d k = cnt ?st0 d k + count_list ds d * length (all_hits i cs d k)" and
    l: "\<And>d k. lst st d k = lst ?st0 d k @
         concat (map (\<lambda>(v, c). concat (replicate (count_list ds d) (hits i v c d k))) cs)"
    by auto
  from f0 have z: "\<And>d. total_counts ?st0 d = 0" "\<And>d k. cnt ?st0 d k = 0" "\<And>d k. lst ?st0 d k = []"
    by (simp_all add: fresh_def)
  have "analyze_camera_stats_magnitude cs ds i = Inr (recall_of st, detailed_stats st)"
    by (simp add: analyze_camera_stats_magnitude_def s)
  moreover have "\<forall>d \<in> set ds. wf_at st d" using w w0 by blast
  moreover have "\<forall>d. total_counts st d = count_list ds d * length cs" by (simp add: t z)
  moreover have "\<forall>d k. cnt st d k = count_list ds d * length (all_hits i cs d k)" by (simp add: c z)
  moreover have "\<forall>d k. lst st d k = concat (map (\<lambda>(v, c). concat (replicate (count_list ds d) (hits i v c d k))) cs)"
    by (simp add: l z)
  ultimately show ?thesis by blast
qed

lemma recall_of_wf:
  assumes "wf_at st d" "k \<in> set all_keys" "total_counts st d > 0"
  shows "\<exists>r. recall_of st d = Some r \<and> r k = Some (real (cnt st d k) / real (total_counts st d))"
proof -
  from assms(1) obtain mc where mc: "magnitude_stats st d = Some mc" "dom mc = set all_keys"
    by (auto simp: wf_at_def)
  with assms(2) obtain c where c: "mc k = Some c" by blast
  show ?thesis using mc(1) c assms(3) by (simp add: recall_of_def cnt_def)
qed

lemma detailed_wf:
  assumes "wf_at st d" "k \<in> set all_keys"
  shows "\<exists>ml. detailed_stats st d = Some ml \<and> ml k = Some (lst st d k)"
proof -
  from assms(1) obtain ml where ml: "detailed_stats st d = Some ml" "dom ml = set all_keys"
    by (auto simp: wf_at_def)
  with assms(2) obtain l where l: "ml k = Some l" by blast
  show ?thesis using ml(1) l by (simp add: lst_def)
qed

lemma length_all_hits:
  "length (all_hits i cs d k) = length (filter (\<lambda>(v, c). map_option fst (placed i c d) = Some k) cs)"
  by (induction cs) (auto simp: all_hits_def hits_def split: option.splits)

lemma set_hits: "set (hits i v c d k) = {(v', x). v' = v \<and> placed i c d = Some (k, x)}"
  by (auto simp: hits_def split: option.splits if_splits)

lemma set_listing:
  assumes "n > 0"
  shows "set (concat (map (\<lambda>(v, c). concat (replicate n (hits i v c d k))) cs)) =
     {(v, x). \<exists>c. (v, c) \<in> set cs \<and> placed i c d = Some (k, x)}"
proof -
  have r: "\<And>l :: (string \<times> dval) list. set (concat (replicate n l)) = set l"
    using assms by (cases n) auto
  have "set (concat (map (\<lambda>(v, c). concat (replicate n (hits i v c d k))) cs)) =
      (\<Union>(v, c) \<in> set cs. set (hits i v c d k))"
    by (induction cs) (simp_all add: r split_def del: set_concat)
  also have "\<dots> = {(v, x). \<exists>c. (v, c) \<in> set cs \<and> placed i c d = Some (k, x)}"
    by (auto simp: set_hits)
  finally show ?thesis .
qed

lemma mag_loop_first:
  assumes "np_index vec i = Inr x" "mag_loop vec i ms = Inr (Some (m, pv))"
  shows "pv = fabs x \<and> (\<exists>j<length ms. ms ! j = m \<and> flt pv m \<and> (\<forall>j'<j. \<not> flt pv (ms ! j')))"
  using assms(2)
proof (induction ms)
  case Nil
  then show ?case by simp
next
  case (Cons a ms)
  show ?case
  proof (cases "flt (fabs x) a")
    case True
    with Cons.prems assms(1) have "m = a" "pv = fabs x" by (simp_all add: Let_def)
    with True show ?thesis by (intro conjI exI [of _ 0]) simp_all
  next
    case False
    with Cons.prems assms(1) have "mag_loop vec i ms = Inr (Some (m, pv))" by (simp add: Let_def)
    from Cons.IH [OF this] obtain j where j: "pv = fabs x" "j < length ms" "ms ! j = m" "flt pv m"
      "\<forall>j'<j. \<not> flt pv (ms ! j')" by blast
    have "\<forall>j'<Suc j. \<not> flt pv ((a # ms) ! j')"
    proof (intro allI impI)
      fix j' assume "j' < Suc j"
      then show "\<not> flt pv ((a # ms) ! j')" using j(1,5) False by (cases j') auto
    qed
    with j show ?thesis by (intro conjI exI [of _ "Suc j"]) simp_all
  qed
qed

lemma mag_loop_finite:
  assumes "np_index vec i = Inr (Fin x)"
  shows "\<exists>m. mag_loop vec i magnitudes = Inr (Some (m, Fin \<bar>x\<bar>))"
  using assms by (simp add: magnitudes_def Let_def)

lemma placed_finite:
  assumes "c d = Some vec" "np_index vec i = Inr (Fin x)"
  shows "\<exists>j<length magnitudes. placed i c d = Some (Mag (magnitudes ! j), Val (Fin \<bar>x\<bar>)) \<and>
     flt (Fin \<bar>x\<bar>) (magnitudes ! j) \<and> (\<forall>j'<j. \<not> flt (Fin \<bar>x\<bar>) (magnitudes ! j'))"
proof -
  from mag_loop_finite [OF assms(2)] obtain m where m: "mag_loop vec i magnitudes = Inr (Some (m, Fin \<bar>x\<bar>))"
    by blast
  from mag_loop_first [OF assms(2) m] obtain j where j: "j < length magnitudes" "magnitudes ! j = m"
    "flt (Fin \<bar>x\<bar>) m" "\<forall>j'<j. \<not> flt (Fin \<bar>x\<bar>) (magnitudes ! j')" by blast
  have "placed i c d = Some (Mag m, Val (Fin \<bar>x\<bar>))" using assms(1) m by (simp add: placed_def)
  with j show ?thesis by blast
qed

subsection \<open>Placement of videos in the magnitude table\<close>

text \<open>
  C2 (as amended). For a non-empty aggregate whose vectors all have the designated index,
  and a duration \<open>d\<close> of the list, the analysis returns a recall table and a listing for
  \<open>d\<close> such that: each bucket's recall is the number of videos placed in that bucket
  divided by the number of videos of the aggregate (the failed ones are in the
  denominator); each bucket's listing holds exactly the videos placed in it; a video
  without an entry for \<open>d\<close> is placed in \<open>failed\<close>; and a video whose designated value
  \<open>x\<close> is finite is placed in the first magnitude whose threshold is strictly greater than
  \<open>\<bar>x\<bar>\<close>, so that a value equal to a finite threshold is placed in the next bucket up.
\<close>

theorem magnitude_bucket_placement:
  assumes ok: "\<forall>(v, c) \<in> set cs. \<forall>d \<in> set ds. index_ok i c d"
    and ne: "cs \<noteq> []"
    and d: "d \<in> set ds"
  shows "\<exists>recall det r ml.
     analyze_camera_stats_magnitude cs ds i = Inr (recall, det) \<and>
     recall d = Some r \<and> det d = Some ml \<and>
     (\<forall>k \<in> set all_keys.
        r k = Some (real (length (filter (\<lambda>(v, c). map_option fst (placed i c d) = Some k) cs))
                    / real (length cs))) \<and>
     (\<forall>k \<in> set all_keys.
        \<exists>l. ml k = Some l \<and> set l = {(v, x). \<exists>c. (v, c) \<in> set cs \<and> placed i c d = Some (k, x)}) \<and>
     (\<forall>(v, c) \<in> set cs. c d = None \<longrightarrow> placed i c d = Some (FailedKey, FailedMark)) \<and>
     (\<forall>(v, c) \<in> set cs. \<forall>vec x. c d = Some vec \<and> np_index vec i = Inr (Fin x) \<longrightarrow>
        (\<exists>j<length magnitudes.
           placed i c d = Some (Mag (magnitudes ! j), Val (Fin \<bar>x\<bar>)) \<and>
           flt (Fin \<bar>x\<bar>) (magnitudes ! j) \<and>
           (\<forall>j'<j. \<not> flt (Fin \<bar>x\<bar>) (magnitudes ! j'))))"
proof -
  from analyze_result [OF ok] obtain st where
    a: "analyze_camera_stats_magnitude cs ds i = Inr (recall_of st, detailed_stats st)" and
    w: "\<forall>d \<in> set ds. wf_at st d" and
    t: "\<And>d. total_counts st d = count_list ds d * length cs" and
    c: "\<And>d k. cnt st d k = count_list ds d * length (all_hits i cs d k)" and
    l: "\<And>d k. lst st d k = concat (map (\<lambda>(v, c). concat (replicate (count_list ds d) (hits i v c d k))) cs)"
    by blast
  from d have n: "count_list ds d > 0" using count_list_0_iff [of ds d] by auto
  from w d have wd: "wf_at st d" by blast
  from ne n have tp: "total_counts st d > 0" by (simp add: t)
  from wd obtain mc ml where
    mc: "magnitude_stats st d = Some mc" "dom mc = set all_keys" and
    ml: "detailed_stats st d = Some ml" "dom ml = set all_keys"
    by (auto simp: wf_at_def)
  let ?r = "\<lambda>mag. map_option (\<lambda>count. real count / real (total_counts st d)) (mc mag)"
  have r: "recall_of st d = Some ?r" using mc(1) tp by (simp add: recall_of_def)
  have rk: "\<forall>k \<in> set all_keys.
        ?r k = Some (real (length (filter (\<lambda>(v, c). map_option fst (placed i c d) = Some k) cs))
                    / real (length cs))"
  proof
    fix k assume k: "k \<in> set all_keys"
    from recall_of_wf [OF wd k tp] r
    have "?r k = Some (real (cnt st d k) / real (total_counts st d))" by simp
    also have "real (cnt st d k) / real (total_counts st d) =
        real (length (all_hits i cs d k)) / real (length cs)"
      using n by (simp add: c t)
    finally show "?r k = Some (real (length (filter (\<lambda>(v, c). map_option fst (placed i c d) = Some k) cs))
                    / real (length cs))"
      by (simp only: length_all_hits)
  qed
  have lk: "\<forall>k \<in> set all_keys.
        \<exists>l. ml k = Some l \<and> set l = {(v, x). \<exists>c. (v, c) \<in> set cs \<and> placed i c d = Some (k, x)}"
  proof
    fix k assume k: "k \<in> set all_keys"
    from detailed_wf [OF wd k] ml(1) have "ml k = Some (lst st d k)" by simp
    moreover have "set (lst st d k) = {(v, x). \<exists>c. (v, c) \<in> set cs \<and> placed i c d = Some (k, x)}"
      unfolding l by (rule set_listing [OF n])
    ultimately show "\<exists>l. ml k = Some l \<and> set l = {(v, x). \<exists>c. (v, c) \<in> set cs \<and> placed i c d = Some (k, x)}"
      by blast
  qed
  have f: "\<forall>(v, c) \<in> set cs. c d = None \<longrightarrow> placed i c d = Some (FailedKey, FailedMark)"
    by (auto simp: placed_def)
  have g: "\<forall>(v, c) \<in> set cs. \<forall>vec x. c d = Some vec \<and> np_index vec i = Inr (Fin x) \<longrightarrow>
        (\<exists>j<length magnitudes.
           placed i c d = Some (Mag (magnitudes ! j), Val (Fin \<bar>x\<bar>)) \<and>
           flt (Fin \<bar>x\<bar>) (magnitudes ! j) \<and>
           (\<forall>j'<j. \<not> flt (Fin \<bar>x\<bar>) (magnitudes ! j')))"
    using placed_finite by blast
  from a r ml(1) rk lk f g show ?thesis by blast
qed

theorem magnitude_bucket_placement_witness:
  "\<exists>recall det r ml.
     analyze_camera_stats_magnitude scenario_stats [''30'', ''60''] 4 = Inr (recall, det) \<and>
     recall ''30'' = Some r \<and> det ''30'' = Some ml \<and>
     (\<forall>k \<in> set all_keys.
        r k = Some (real (length (filter (\<lambda>(v, c). map_option fst (placed 4 c ''30'') = Some k) scenario_stats))
                    / real (length scenario_stats))) \<and>
     (\<forall>k \<in> set all_keys.
        \<exists>l. ml k = Some l \<and> set l = {(v, x). \<exists>c. (v, c) \<in> set scenario_stats \<and> placed 4 c ''30'' = Some (k, x)}) \<and>
     (\<forall>(v, c) \<in> set scenario_stats. c ''30'' = None \<longrightarrow> placed 4 c ''30'' = Some (FailedKey, FailedMark)) \<and>
     (\<forall>(v, c) \<in> set scenario_stats. \<forall>vec x. c ''30'' = Some vec \<and> np_index vec 4 = Inr (Fin x) \<longrightarrow>
        (\<exists>j<length magnitudes.
           placed 4 c ''30'' = Some (Mag (magnitudes ! j), Val (Fin \<bar>x\<bar>)) \<and>
           flt (Fin \<bar>x\<bar>) (magnitudes ! j) \<and>
           (\<forall>j'<j. \<not> flt (Fin \<bar>x\<bar>) (magnitudes ! j'))))"
proof -
  have h1: "\<forall>(v, c) \<in> set scenario_stats. \<forall>d \<in> set [''30'', ''60'']. index_ok 4 c d"
    by (simp add: scenario_stats_def index_ok_def np_index_def)
  have h2: "scenario_stats \<noteq> []" by (simp add: scenario_stats_def)
  have h3: "''30'' \<in> set [''30'', ''60'']" by simp
  from magnitude_bucket_placement [OF h1 h2 h3] show ?thesis .
qed

text \<open>
  The claim as the specification words it has a value equal to a threshold fall into that
  threshold's lower-magnitude bucket. On the code a designated value of exactly 10 is
  counted under the magnitude 100 and not under the magnitude 10.
\<close>

theorem tie_goes_to_next_bucket_counterexample:
  "recall_at [(''v'', [''30'' \<mapsto> [Fin 1, Fin 1, Fin 1, Fin 1, Fin 10]])] [''30''] 4 ''30'' (Mag (Fin 10)) = Some 0 \<and>
   recall_at [(''v'', [''30'' \<mapsto> [Fin 1, Fin 1, Fin 1, Fin 1, Fin 10]])] [''30''] 4 ''30'' (Mag (Fin 100)) = Some 1"
  by (simp add: analyze_eval)

subsection \<open>Values that no bucket takes\<close>

text \<open>
  C3. The recalls of a duration should add up to 1 for every value of the designated
  field. The loop over the magnitudes ends at \<open>inf\<close> and compares with \<open><\<close>, so a video
  whose designated value is infinite (or NaN) matches no magnitude: it is counted in the
  total of the duration and in no bucket. With that single video the five recalls of the
  duration are all 0 and add up to 0.
\<close>

theorem infinite_value_in_no_bucket:
  "map (recall_at [(''v'', [''30'' \<mapsto> [Fin 1, Fin 1, Fin 1, Fin 1, PInf]])] [''30''] 4 ''30'') all_keys
     = [Some 0, Some 0, Some 0, Some 0, Some 0] \<and>
   map (recall_at [(''v'', [''30'' \<mapsto> [Fin 1, Fin 1, Fin 1, Fin 1, NaN]])] [''30''] 4 ''30'') all_keys
     = [Some 0, Some 0, Some 0, Some 0, Some 0]"
  by (simp add: analyze_eval all_keys_def)

section \<open>Properties of a job\<close>



lemma uncaught_failure [simp]: "uncaught (failure v d msg vs) = None"
  by (simp add: failure_def)

lemma uncaught_recovery [simp]: "uncaught (recovery env v d) = None"
  by (simp add: recovery_def timeout_failure_def split: prod.splits sum.splits)


lemma died_apply [simp]: "died (apply_effect d eff st) = uncaught eff"
  by (simp add: apply_effect_def)


lemma find_largest_spec:
  assumes "dir_counts env L = Some cs"
  shows "\<exists>sel n. find_largest env L p0 m0 = Inr (sel, n) \<and> m0 \<le> n \<and> (\<forall>c \<in> set cs. snd c \<le> n) \<and>
     (if \<forall>c \<in> set cs. snd c \<le> m0 then sel = p0 \<and> n = m0
      else \<exists>i<length cs. sel = Some (fst (cs ! i)) \<and> snd (cs ! i) = n \<and> (\<forall>j<i. snd (cs ! j) < n))"
  using assms
proof (induction L arbitrary: cs p0 m0)
  case Nil
  then show ?case by simp
next
  case (Cons pe L)
  obtain p e where pe: "pe = (p, e)" by (cases pe)
  show ?case
  proof (cases e)
    case NotDir
    with Cons.prems pe have "dir_counts env L = Some cs" by simp
    from Cons.IH [OF this, of p0 m0] show ?thesis using pe NotDir by simp
  next
    case (Dir dir)
    with Cons.prems pe obtain r cs' where r: "pycolmap_Reconstruction env dir = Inr r"
      and cs': "dir_counts env L = Some cs'" and cs: "cs = (p, num_reg_images r) # cs'"
      by (auto split: sum.splits)
    let ?k = "num_reg_images r"
    show ?thesis
    proof (cases "?k > m0")
      case True
      from Cons.IH [OF cs', of "Some p" ?k] obtain sel n where
        f: "find_largest env L (Some p) ?k = Inr (sel, n)" and le: "?k \<le> n" and
        ub: "\<forall>c \<in> set cs'. snd c \<le> n" and
        w: "if \<forall>c \<in> set cs'. snd c \<le> ?k then sel = Some p \<and> n = ?k
            else \<exists>i<length cs'. sel = Some (fst (cs' ! i)) \<and> snd (cs' ! i) = n \<and> (\<forall>j<i. snd (cs' ! j) < n)"
        by blast
      have f': "find_largest env (pe # L) p0 m0 = Inr (sel, n)"
        using pe Dir r True f by (simp add: Let_def)
      have nall: "\<not> (\<forall>c \<in> set cs. snd c \<le> m0)" using True cs by auto
      have "\<exists>i<length cs. sel = Some (fst (cs ! i)) \<and> snd (cs ! i) = n \<and> (\<forall>j<i. snd (cs ! j) < n)"
      proof (cases "\<forall>c \<in> set cs'. snd c \<le> ?k")
        case True
        with w have "sel = Some p" "n = ?k" by simp_all
        then show ?thesis using cs by (intro exI [of _ 0]) simp
      next
        case False
        with w obtain i where i: "i < length cs'" "sel = Some (fst (cs' ! i))" "snd (cs' ! i) = n"
          "\<forall>j<i. snd (cs' ! j) < n" by auto
        from False ub le have "?k < n"
          by (metis i(1) i(3) le_neq_implies_less linorder_not_le nth_mem order_trans)
        have "\<forall>j<Suc i. snd (cs ! j) < n"
        proof (intro allI impI)
          fix j assume "j < Suc i"
          then show "snd (cs ! j) < n" using i(4) \<open>?k < n\<close> cs by (cases j) auto
        qed
        with i cs show ?thesis by (intro exI [of _ "Suc i"]) simp
      qed
      with f' le ub True nall cs show ?thesis by auto
    next
      case False
      from Cons.IH [OF cs', of p0 m0] obtain sel n where
        f: "find_largest env L p0 m0 = Inr (sel, n)" and le: "m0 \<le> n" and
        ub: "\<forall>c \<in> set cs'. snd c \<le> n" and
        w: "if \<forall>c \<in> set cs'. snd c \<le> m0 then sel = p0 \<and> n = m0
            else \<exists>i<length cs'. sel = Some (fst (cs' ! i)) \<and> snd (cs' ! i) = n \<and> (\<forall>j<i. snd (cs' ! j) < n)"
        by blast
      have f': "find_largest env (pe # L) p0 m0 = Inr (sel, n)"
        using pe Dir r False f by (simp add: Let_def)
      have k: "?k \<le> m0" using False by simp
      show ?thesis
      proof (cases "\<forall>c \<in> set cs'. snd c \<le> m0")
        case True
        with w k cs f' le ub show ?thesis by auto
      next
        case False
        with w obtain i where i: "i < length cs'" "sel = Some (fst (cs' ! i))" "snd (cs' ! i) = n"
          "\<forall>j<i. snd (cs' ! j) < n" by auto
        from False obtain c where c: "c \<in> set cs'" "m0 < snd c" by auto
        with ub le have "m0 < n" by (meson le_trans linorder_not_le)
        have "\<forall>j<Suc i. snd (cs ! j) < n"
        proof (intro allI impI)
          fix j assume "j < Suc i"
          then show "snd (cs ! j) < n" using i(4) \<open>m0 < n\<close> k cs by (cases j) auto
        qed
        with i cs have ex: "\<exists>i<length cs. sel = Some (fst (cs ! i)) \<and> snd (cs ! i) = n \<and> (\<forall>j<i. snd (cs ! j) < n)"
          by (intro exI [of _ "Suc i"]) simp
        have nall: "\<not> (\<forall>c \<in> set cs. snd c \<le> m0)" using False cs by auto
        from f' le ub k \<open>m0 < n\<close> ex nall cs show ?thesis by auto
      qed
    qed
  qed
qed

lemmas job_eval = timeout_env_def success_env_def count_load_def checkpoint_def model_dir_def
  pycolmap_Reconstruction_def
  model_files_def restrict_map_def recovery_def recover_def summarise_def mean_std_def
  rectangular_def timeout_failure_def failure_def attempt_def time_limit_def raised_in_block_def
  Let_def str_int_def

lemma recovery_failed_if:
  assumes "snd (snd (recover env d)) = Inl msg"
  shows "kind (recovery env v d) = Failed \<and> entry (recovery env v d) = None \<and>
     logged (recovery env v d) = [v @ '' '' @ str_int d @ ''s: Timeout after '' @
                str_int (elapsed_time env d) @ '' seconds'']"
  using assms by (cases "recover env d") (auto simp: recovery_def timeout_failure_def)

subsection \<open>Selection of the checkpoint\<close>

text \<open>
  C5 (as amended). When the \<open>models\<close> location cannot be listed the outcome is Failed.
  When it can and every subdirectory in it is readable, the selection ends with a bound
  on every count; if some checkpoint has a positive count, the selected checkpoint is the
  first of the listing that has the maximum count, and that count is positive; if no
  checkpoint has a positive count (no checkpoint at all, or only checkpoints with no
  registered image), nothing is selected and the outcome is Failed with no summary.
\<close>

theorem recovery_selects_largest_checkpoint:
  "(models_dir env d = None \<longrightarrow> kind (recovery env v d) = Failed) \<and>
   (\<forall>L cs. models_dir env d = Some L \<and> dir_counts env L = Some cs \<longrightarrow>
      (\<exists>sel n. find_largest env L None 0 = Inr (sel, n) \<and> (\<forall>c \<in> set cs. snd c \<le> n) \<and>
         ((\<exists>c \<in> set cs. 0 < snd c) \<longrightarrow>
            (\<exists>i<length cs. sel = Some (fst (cs ! i)) \<and> snd (cs ! i) = n \<and> 0 < n \<and>
               (\<forall>j<i. snd (cs ! j) < n))) \<and>
         ((\<forall>c \<in> set cs. snd c = 0) \<longrightarrow>
            sel = None \<and> kind (recovery env v d) = Failed \<and> entry (recovery env v d) = None)))"
proof (intro conjI allI impI)
  assume "models_dir env d = None"
  then have "snd (snd (recover env d)) = Inl ''No such file or directory''" by (simp add: recover_def)
  from recovery_failed_if [OF this] show "kind (recovery env v d) = Failed" by simp
next
  fix L cs assume a: "models_dir env d = Some L \<and> dir_counts env L = Some cs"
  then have L: "models_dir env d = Some L" and cs: "dir_counts env L = Some cs" by simp_all
  from find_largest_spec [OF cs, of None 0] obtain sel n where
    f: "find_largest env L None 0 = Inr (sel, n)" and ub: "\<forall>c \<in> set cs. snd c \<le> n" and
    w: "if \<forall>c \<in> set cs. snd c \<le> 0 then sel = None \<and> n = 0
        else \<exists>i<length cs. sel = Some (fst (cs ! i)) \<and> snd (cs ! i) = n \<and> (\<forall>j<i. snd (cs ! j) < n)"
    by blast
  have pos: "(\<exists>c \<in> set cs. 0 < snd c) \<longrightarrow>
            (\<exists>i<length cs. sel = Some (fst (cs ! i)) \<and> snd (cs ! i) = n \<and> 0 < n \<and>
               (\<forall>j<i. snd (cs ! j) < n))"
  proof
    assume e: "\<exists>c \<in> set cs. 0 < snd c"
    then have ne: "\<not> (\<forall>c \<in> set cs. snd c \<le> 0)" by auto
    from w have "\<exists>i<length cs. sel = Some (fst (cs ! i)) \<and> snd (cs ! i) = n \<and> (\<forall>j<i. snd (cs ! j) < n)"
      unfolding if_not_P [OF ne] .
    then obtain i where i: "i < length cs" "sel = Some (fst (cs ! i))" "snd (cs ! i) = n"
      "\<forall>j<i. snd (cs ! j) < n" by blast
    from e ub have "0 < n" by (meson le_trans linorder_not_le)
    with i show "\<exists>i<length cs. sel = Some (fst (cs ! i)) \<and> snd (cs ! i) = n \<and> 0 < n \<and>
               (\<forall>j<i. snd (cs ! j) < n)" by blast
  qed
  have zero: "(\<forall>c \<in> set cs. snd c = 0) \<longrightarrow>
            sel = None \<and> kind (recovery env v d) = Failed \<and> entry (recovery env v d) = None"
  proof
    assume z: "\<forall>c \<in> set cs. snd c = 0"
    with w have s: "sel = None" by simp
    with f L have "snd (snd (recover env d)) = Inl []" by (simp add: recover_def)
    from recovery_failed_if [OF this] s
    show "sel = None \<and> kind (recovery env v d) = Failed \<and> entry (recovery env v d) = None" by simp
  qed
  from f ub pos zero
  show "\<exists>sel n. find_largest env L None 0 = Inr (sel, n) \<and> (\<forall>c \<in> set cs. snd c \<le> n) \<and>
         ((\<exists>c \<in> set cs. 0 < snd c) \<longrightarrow>
            (\<exists>i<length cs. sel = Some (fst (cs ! i)) \<and> snd (cs ! i) = n \<and> 0 < n \<and>
               (\<forall>j<i. snd (cs ! j) < n))) \<and>
         ((\<forall>c \<in> set cs. snd c = 0) \<longrightarrow>
            sel = None \<and> kind (recovery env v d) = Failed \<and> entry (recovery env v d) = None)"
    by blast
qed

text \<open>
  With the checkpoints of 3, 7 and 5 registered images the one of 7 is selected and
  promoted: the summary is the one of its single camera \<open>[7, 4]\<close>.
\<close>

theorem recovery_selects_largest_checkpoint_witness:
  "\<exists>sel n. find_largest (timeout_env (Some three_checkpoints)) three_checkpoints None 0 = Inr (sel, n) \<and>
     sel = Some ''1'' \<and> n = 7 \<and>
     kind (recovery (timeout_env (Some three_checkpoints)) ''v'' 30) = Recovered \<and>
     entry (recovery (timeout_env (Some three_checkpoints)) ''v'' 30) = Some [7, 4, 0, 0]"
proof -
  let ?env = "timeout_env (Some three_checkpoints)"
  let ?cs = "[(''0'', 3), (''1'', 7), (''2'', 5)] :: (string \<times> nat) list"
  have m: "models_dir ?env 30 = Some three_checkpoints" by (simp add: timeout_env_def)
  have c: "dir_counts ?env three_checkpoints = Some ?cs"
    by (simp add: three_checkpoints_def job_eval)
  have p: "\<exists>c \<in> set ?cs. 0 < snd c" by simp
  from recovery_selects_largest_checkpoint [of ?env 30 "''v''"] m c
  obtain sel n where f: "find_largest ?env three_checkpoints None 0 = Inr (sel, n)" and
    w: "(\<exists>c \<in> set ?cs. 0 < snd c) \<longrightarrow>
            (\<exists>i<length ?cs. sel = Some (fst (?cs ! i)) \<and> snd (?cs ! i) = n \<and> 0 < n \<and>
               (\<forall>j<i. snd (?cs ! j) < n))"
    by blast
  from w p obtain i where i: "i < length ?cs" "sel = Some (fst (?cs ! i))" "snd (?cs ! i) = n"
    "\<forall>j<i. snd (?cs ! j) < n"
    by blast
  have "find_largest ?env three_checkpoints None 0 = Inr (Some ''1'', 7)"
    by (simp add: three_checkpoints_def job_eval)
  with f have sn: "sel = Some ''1''" "n = 7" by simp_all
  have k: "kind (recovery ?env ''v'' 30) = Recovered"
    by (simp add: three_checkpoints_def job_eval column_def mean_def std_def)
  have e: "entry (recovery ?env ''v'' 30) = Some [7, 4, 0, 0]"
    by (simp add: three_checkpoints_def job_eval column_def mean_def std_def)
  from f sn k e show ?thesis by blast
qed

text \<open>
  The claim has the checkpoint with the maximum count selected whenever a checkpoint
  exists. A single checkpoint with no registered image has the maximum count, 0, and is
  not selected: the comparison with the initial 0 is strict and the assertion fails.
\<close>

theorem empty_checkpoint_not_selected_counterexample:
  "find_largest (timeout_env (Some [(''0'', Dir (checkpoint 0))])) [(''0'', Dir (checkpoint 0))] None 0
     = Inr (None, 0) \<and>
   kind (recovery (timeout_env (Some [(''0'', Dir (checkpoint 0))])) ''v'' 30) = Failed"
  by (simp add: job_eval)

subsection \<open>The guard of the deadline\<close>


subsection \<open>The seed of a job\<close>

text \<open>
  C9. The seed of a job is the global seed plus \<open>hash(video_name) % 10000\<close>, and the seed
  of a duration adds the duration. \<open>hash\<close> of a string is keyed by the interpreter the
  job runs in, so the seed is a function of the global seed, the video and that key: two
  interpreters that hash the name of the video differently give the same video, with the
  same global seed and duration, different seeds.
\<close>

theorem job_seed_follows_interpreter_hash:
  "process_seed_of (env\<lparr>py_hash := h\<rparr>) seed video_name = seed + h video_name mod 10000 \<and>
   video_seed_of (env\<lparr>py_hash := h\<rparr>) seed video_name duration = seed + h video_name mod 10000 + duration \<and>
   video_seed_of (env\<lparr>py_hash := \<lambda>name. 1\<rparr>) 42 ''a'' 30 = 73 \<and>
   video_seed_of (env\<lparr>py_hash := \<lambda>name. 2\<rparr>) 42 ''a'' 30 = 74"
  by (simp add: process_seed_of_def video_seed_of_def)


lemma attempt_interrupted:
  assumes "run_block env d (ps + d) = Interrupted src"
  shows "attempt env v ps d = recovery env v d"
  using assms by (simp add: attempt_def time_limit_def raised_in_block_def)

subsection \<open>A timeout without a checkpoint\<close>


lemmas run_eval = process_single_video_def process_seed_of_def apply_effect_def initial_job_state_def
  str_nat.simps digit_chars_def column_def mean_def std_def



lemma promote_all:
  assumes "first_missing src model_files = None"
  shows "\<exists>dir. promote src dst model_files = Inr dir \<and> dir |` set model_files = src |` set model_files"
proof -
  from assms obtain a b c where
    abc: "src ''images.bin'' = Some a" "src ''cameras.bin'' = Some b" "src ''points3D.bin'' = Some c"
    by (auto simp: model_files_def split: if_splits)
  have p: "promote src dst model_files =
      Inr (dst(''images.bin'' \<mapsto> a, ''cameras.bin'' \<mapsto> b, ''points3D.bin'' \<mapsto> c))"
    using abc by (simp add: model_files_def)
  have "(dst(''images.bin'' \<mapsto> a, ''cameras.bin'' \<mapsto> b, ''points3D.bin'' \<mapsto> c)) |` set model_files
      = src |` set model_files"
    using abc by (auto simp: fun_eq_iff restrict_map_def model_files_def)
  with p show ?thesis by simp
qed

subsection \<open>A recovered job\<close>

text \<open>
  C6 (as amended). When the guarded block of a duration is interrupted and the selected
  checkpoint holds the three model files, is readable and its cameras have a summary,
  the pass is a recovery whose summary is the summary of the cameras parsed from the
  promoted files, with those cameras appended for the total and nothing logged; a job
  whose block ran to its end and that parsed the same cameras leaves the same summary,
  the same appended vectors and the same log. (The branch taken is not part of what the
  job writes: see the counterexample.)
\<close>

theorem recovered_summary_like_success:
  assumes t: "run_block env d (ps + d) = Interrupted src"
    and L: "models_dir env d = Some L"
    and f: "find_largest env L None 0 = Inr (Some p, n)"
    and m: "map_of L p = Some (Dir ckpt)"
    and files: "first_missing ckpt model_files = None"
    and r: "pycolmap_Reconstruction env ckpt = Inr rec"
    and s: "mean_std (cameras rec) = Inr summary"
  shows "kind (attempt env v ps d) = Recovered \<and>
     entry (attempt env v ps d) = Some summary \<and>
     appended (attempt env v ps d) = cameras rec \<and>
     logged (attempt env v ps d) = [] \<and>
     (run_block env' d (ps + d) = Completed \<and> first_missing (sparse_dir env' d) model_files = None \<and>
      pycolmap_Reconstruction env' (sparse_dir env' d) = Inr rec \<longrightarrow>
        kind (attempt env' v ps d) = Success \<and>
        entry (attempt env' v ps d) = entry (attempt env v ps d) \<and>
        appended (attempt env' v ps d) = appended (attempt env v ps d) \<and>
        logged (attempt env' v ps d) = logged (attempt env v ps d))"
proof -
  from promote_all [OF files, of "sparse_dir env d"] obtain dir where
    pr: "promote ckpt (sparse_dir env d) model_files = Inr dir" and
    eq: "dir |` set model_files = ckpt |` set model_files" by blast
  have ld: "pycolmap_Reconstruction env dir = Inr rec"
    using r eq by (simp add: pycolmap_Reconstruction_def)
  have su: "summarise env dir = (cameras rec, Inr summary)"
    by (simp add: summarise_def ld s)
  have rc: "recover env d =
      ([''Largest model is #'' @ p @ ''with '' @ str_nat n @ '' images.''], cameras rec, Inr summary)"
    by (simp add: recover_def L f m pr su)
  have a: "attempt env v ps d =
      \<lparr>kind = Recovered, appended = cameras rec, entry = Some summary, logged = [],
       printed = [''Largest model is #'' @ p @ ''with '' @ str_nat n @ '' images.''], uncaught = None\<rparr>"
    by (simp add: attempt_interrupted [OF t] recovery_def rc)
  have b: "run_block env' d (ps + d) = Completed \<and> first_missing (sparse_dir env' d) model_files = None \<and>
      pycolmap_Reconstruction env' (sparse_dir env' d) = Inr rec \<longrightarrow>
        attempt env' v ps d =
          \<lparr>kind = Success, appended = cameras rec, entry = Some summary, logged = [],
           printed = [], uncaught = None\<rparr>"
    by (simp add: attempt_def time_limit_def raised_in_block_def summarise_def s)
  show ?thesis using b by (auto simp: a)
qed

theorem recovered_summary_like_success_witness:
  "kind (attempt (timeout_env (Some [(''0'', Dir (checkpoint 12))])) ''v'' 42 30) = Recovered \<and>
   entry (attempt (timeout_env (Some [(''0'', Dir (checkpoint 12))])) ''v'' 42 30) = Some [12, 4, 0, 0] \<and>
   kind (attempt (success_env (\<lambda>duration. checkpoint 12)) ''v'' 42 30) = Success \<and>
   entry (attempt (success_env (\<lambda>duration. checkpoint 12)) ''v'' 42 30)
     = entry (attempt (timeout_env (Some [(''0'', Dir (checkpoint 12))])) ''v'' 42 30)"
proof -
  let ?L = "[(''0'', Dir (checkpoint 12))]"
  let ?env = "timeout_env (Some ?L)"
  let ?env' = "success_env (\<lambda>duration. checkpoint 12)"
  let ?rec = "\<lparr>cameras = [[12, 4]], num_reg_images = 12\<rparr>"
  have t: "run_block ?env 30 (42 + 30) = Interrupted DeadlineTimer" by (simp add: timeout_env_def)
  have L: "models_dir ?env 30 = Some ?L" by (simp add: timeout_env_def)
  have f: "find_largest ?env ?L None 0 = Inr (Some ''0'', 12)" by (simp add: job_eval)
  have m: "map_of ?L ''0'' = Some (Dir (checkpoint 12))" by simp
  have files: "first_missing (checkpoint 12) model_files = None" by (simp add: job_eval)
  have r: "pycolmap_Reconstruction ?env (checkpoint 12) = Inr ?rec" by (simp add: job_eval)
  have s: "mean_std (cameras ?rec) = Inr [12, 4, 0, 0]" by (simp add: job_eval run_eval)
  have c: "run_block ?env' 30 (42 + 30) = Completed \<and>
      first_missing (sparse_dir ?env' 30) model_files = None \<and>
      pycolmap_Reconstruction ?env' (sparse_dir ?env' 30) = Inr ?rec"
    by (simp add: job_eval)
  from recovered_summary_like_success [OF t L f m files r s, where env' = ?env' and v = "''v''"] c
  show ?thesis by simp
qed

text \<open>
  The claim has the distinction between Recovered and Success survive into reporting.
  The result artifact of a recovered job and the lines it logs are those of a successful
  job that parsed the same cameras: nothing that the aggregation reads tells them apart.
\<close>

theorem recovered_not_marked_counterexample:
  "result_file (process_single_video (timeout_env (Some [(''0'', Dir (checkpoint 12))])) ''v'' 42 [30])
     = Some [(''30'', [12, 4, 0, 0]), (''total'', [12, 4, 0, 0])] \<and>
   result_file (process_single_video (success_env (\<lambda>duration. checkpoint 12)) ''v'' 42 [30])
     = Some [(''30'', [12, 4, 0, 0]), (''total'', [12, 4, 0, 0])] \<and>
   log_lines (process_single_video (timeout_env (Some [(''0'', Dir (checkpoint 12))])) ''v'' 42 [30]) = [] \<and>
   log_lines (process_single_video (success_env (\<lambda>duration. checkpoint 12)) ''v'' 42 [30]) = []"
  by (simp add: job_eval run_eval)











lemma failure_sel [simp]:
  "kind (failure v d msg vs) = Failed" "entry (failure v d msg vs) = None" "appended (failure v d msg vs) = vs"
  by (simp_all add: failure_def)

lemma timeout_failure_sel [simp]:
  "kind (timeout_failure env v d ls vs) = Failed" "entry (timeout_failure env v d ls vs) = None"
  "appended (timeout_failure env v d ls vs) = vs"
  by (simp_all add: timeout_failure_def)










subsection \<open>The total of a video\<close>



section \<open>Properties of the control loop\<close>

lemma started_on_append [simp]:
  "started_on g (st\<lparr>started := started st @ [(g', p)]\<rparr>) = started_on g st @ (if g' = g then [p] else [])"
  by (simp add: started_on_def)





lemma core_fields_collect [simp]: "core_fields (collect job g v st) = core_fields st"
  by (simp add: core_fields_def collect_def Let_def)














































subsection \<open>Every job once, within the capacity\<close>



end
